theory Spec2Isabelle
  imports Main
begin

text \<open>
  A model of \<open>forms.Validation\<close> (\<open>form-validation.js\<close>): the validator reads the error
  messages under a form, derives the field of each from its identifier and classes,
  checks the field by the rules that the classes of the message name, and shows the
  messages whose check fails. The definitions follow the functions of the source and
  keep their names, without the trailing underscore of the private ones. What the
  source raises is a value \<open>Inl\<close> of the result here.
\<close>

section \<open>JavaScript strings\<close>

text \<open>
  A JavaScript string is a finite sequence of UTF-16 code units. The model keeps the code
  units below 256, so a string is a \<^typ>\<open>string\<close> and \<open>length\<close> is the \<open>length\<close> property.
  Indices are \<^typ>\<open>int\<close>, because \<open>indexOf\<close> and \<open>lastIndexOf\<close> answer \<open>-1\<close> and the program
  passes such values on to \<open>substring\<close>.
\<close>

definition code :: "char \<Rightarrow> nat" where
  "code c = of_char c"

text \<open>\<open>substring\<close> replaces an index below 0 by 0 and one above the length by the length,
  and swaps the two when the first is the larger.\<close>

definition clampIndex :: "string \<Rightarrow> int \<Rightarrow> nat" where
  "clampIndex s i = (if i < 0 then 0 else min (nat i) (length s))"

definition substring :: "string \<Rightarrow> int \<Rightarrow> int \<Rightarrow> string" where
  "substring s a b =
     (let x = clampIndex s a; y = clampIndex s b
      in take (max x y - min x y) (drop (min x y) s))"

definition substringFrom :: "string \<Rightarrow> int \<Rightarrow> string" where
  "substringFrom s a = drop (clampIndex s a) s"

definition startsAt :: "string \<Rightarrow> string \<Rightarrow> bool" where
  "startsAt p s = (take (length p) s = p)"

fun indexOfFrom :: "nat \<Rightarrow> string \<Rightarrow> string \<Rightarrow> int" where
  "indexOfFrom i [] p = (if p = [] then int i else - 1)"
| "indexOfFrom i (c # t) p = (if startsAt p (c # t) then int i else indexOfFrom (Suc i) t p)"

definition indexOf :: "string \<Rightarrow> string \<Rightarrow> int" where
  "indexOf s p = indexOfFrom 0 s p"

fun lastIndexOfFrom :: "nat \<Rightarrow> int \<Rightarrow> string \<Rightarrow> string \<Rightarrow> int" where
  "lastIndexOfFrom i found [] p = (if p = [] then int i else found)"
| "lastIndexOfFrom i found (c # t) p =
     lastIndexOfFrom (Suc i) (if startsAt p (c # t) then int i else found) t p"

definition lastIndexOf :: "string \<Rightarrow> string \<Rightarrow> int" where
  "lastIndexOf s p = lastIndexOfFrom 0 (- 1) s p"

definition charAt :: "string \<Rightarrow> int \<Rightarrow> string" where
  "charAt s i = (if 0 \<le> i \<and> i < int (length s) then [s ! nat i] else [])"

text \<open>\<open>split\<close> with a separator of one code unit, the only kind the program uses. The
  result is never empty: the empty string splits into one empty piece.\<close>

definition jsSplit :: "char \<Rightarrow> string \<Rightarrow> string list" where
  "jsSplit sep s =
     foldr (\<lambda>c acc. if c = sep then [] # acc else (c # hd acc) # tl acc) s [[]]"

text \<open>\<open>join\<close> with a separator of one code unit.\<close>

fun joinWith :: "char \<Rightarrow> string list \<Rightarrow> string" where
  "joinWith sep [] = []"
| "joinWith sep [t] = t"
| "joinWith sep (t # u # ts) = t @ sep # joinWith sep (u # ts)"

text \<open>\<open>toLowerCase\<close> on code units below 256: the letters A to Z and the capital letters
  of the Latin-1 block (C0 to DE, the multiplication sign D7 apart) move up by 32.\<close>

definition lowerChar :: "char \<Rightarrow> char" where
  "lowerChar c =
     (if (65 \<le> code c \<and> code c \<le> 90) \<or> (192 \<le> code c \<and> code c \<le> 222 \<and> code c \<noteq> 215)
      then char_of (code c + 32) else c)"

definition toLowerCase :: "string \<Rightarrow> string" where
  "toLowerCase s = map lowerChar s"

section \<open>Regular expressions\<close>

text \<open>
  The patterns of the program use character classes, the dot, concatenation, alternation
  and the quantifiers \<open>*\<close>, \<open>+\<close>, \<open>?\<close> and \<open>{m,n}\<close>, with \<open>^\<close> and \<open>$\<close> only at the two ends and no
  flags. On such a pattern \<open>test\<close> answers whether the whole string belongs to the regular
  language of the pattern, so a pattern is modelled by its syntax tree between the anchors.
\<close>

datatype cset = OneOf "(char \<times> char) list" | NoneOf "(char \<times> char) list"

fun inRanges :: "char \<Rightarrow> (char \<times> char) list \<Rightarrow> bool" where
  "inRanges c [] = False"
| "inRanges c ((lo, hi) # rs) = ((code lo \<le> code c \<and> code c \<le> code hi) \<or> inRanges c rs)"

fun inCset :: "char \<Rightarrow> cset \<Rightarrow> bool" where
  "inCset c (OneOf rs) = inRanges c rs"
| "inCset c (NoneOf rs) = (\<not> inRanges c rs)"

datatype regex = Fail | Empty | Chr cset | Alt regex regex | Seq regex regex | Many regex

subsection \<open>The language of a pattern\<close>

definition cat :: "string set \<Rightarrow> string set \<Rightarrow> string set" where
  "cat A B = {u @ v | u v. u \<in> A \<and> v \<in> B}"

inductive_set iter :: "string set \<Rightarrow> string set" for A :: "string set" where
  iter_nil: "[] \<in> iter A"
| iter_more: "u \<in> A \<Longrightarrow> v \<in> iter A \<Longrightarrow> u @ v \<in> iter A"

fun lang :: "regex \<Rightarrow> string set" where
  "lang Fail = {}"
| "lang Empty = {[]}"
| "lang (Chr k) = {[c] | c. inCset c k}"
| "lang (Alt r s) = lang r \<union> lang s"
| "lang (Seq r s) = cat (lang r) (lang s)"
| "lang (Many r) = iter (lang r)"

subsection \<open>An executable matcher\<close>

text \<open>The matcher follows the string one code unit at a time and keeps the list of the
  patterns that the rest of the string may still have to match.\<close>

fun nullable :: "regex \<Rightarrow> bool" where
  "nullable Fail = False"
| "nullable Empty = True"
| "nullable (Chr k) = False"
| "nullable (Alt r s) = (nullable r \<or> nullable s)"
| "nullable (Seq r s) = (nullable r \<and> nullable s)"
| "nullable (Many r) = True"

fun after :: "char \<Rightarrow> regex \<Rightarrow> regex list" where
  "after c Fail = []"
| "after c Empty = []"
| "after c (Chr k) = (if inCset c k then [Empty] else [])"
| "after c (Alt r s) = after c r @ after c s"
| "after c (Seq r s) =
     map (\<lambda>r'. Seq r' s) (after c r) @ (if nullable r then after c s else [])"
| "after c (Many r) = map (\<lambda>r'. Seq r' (Many r)) (after c r)"

definition step :: "regex list \<Rightarrow> char \<Rightarrow> regex list" where
  "step rs c = remdups (concat (map (after c) rs))"

definition test :: "regex \<Rightarrow> string \<Rightarrow> bool" where
  "test r s = list_ex nullable (foldl step [r] s)"

subsection \<open>Pattern syntax\<close>

definition lit :: "string \<Rightarrow> regex" where
  "lit s = foldr (\<lambda>c r. Seq (Chr (OneOf [(c, c)])) r) s Empty"

definition alts :: "regex list \<Rightarrow> regex" where
  "alts rs = foldr Alt rs Fail"

definition opt :: "regex \<Rightarrow> regex" where
  "opt r = Alt Empty r"

definition many1 :: "regex \<Rightarrow> regex" where
  "many1 r = Seq r (Many r)"

fun repUpTo :: "nat \<Rightarrow> regex \<Rightarrow> regex" where
  "repUpTo 0 r = Empty"
| "repUpTo (Suc n) r = opt (Seq r (repUpTo n r))"

fun repExactly :: "nat \<Rightarrow> regex \<Rightarrow> regex" where
  "repExactly 0 r = Empty"
| "repExactly (Suc n) r = Seq r (repExactly n r)"

definition repBetween :: "nat \<Rightarrow> nat \<Rightarrow> regex \<Rightarrow> regex" where
  "repBetween m n r = Seq (repExactly m r) (repUpTo (n - m) r)"

text \<open>The dot matches every code unit but a line terminator (line feed and carriage
  return, below 256).\<close>

definition dot :: regex where
  "dot = Chr (NoneOf [(CHR 0x0A, CHR 0x0A), (CHR 0x0D, CHR 0x0D)])"

definition anyChar :: regex where
  "anyChar = Chr (NoneOf [])"

definition digit :: cset where
  "digit = OneOf [(CHR ''0'', CHR ''9'')]"

definition langs :: "regex list \<Rightarrow> string set" where
  "langs rs = (\<Union>r \<in> set rs. lang r)"

section \<open>Values, truthiness and comparison\<close>

text \<open>
  The arguments of the length rule reach it as strings (pieces of a class name), as
  \<open>null\<close> or as \<open>undefined\<close>, although its documentation announces numbers; the model keeps
  all of these. A number that is given as such is an integer. The number that a string
  stands for is \<open>NaN\<close>, an infinity, or a decimal value \<open>m * 10 ^ e\<close> kept as the pair of \<open>m\<close>
  and \<open>e\<close>.
\<close>

datatype jsval = JUndefined | JNull | JNaN | JNum int | JStr string

datatype jsnum = NaN | Finite int int | PosInf | NegInf

fun truthy :: "jsval \<Rightarrow> bool" where
  "truthy JUndefined = False"
| "truthy JNull = False"
| "truthy JNaN = False"
| "truthy (JNum n) = (n \<noteq> 0)"
| "truthy (JStr s) = (s \<noteq> [])"

definition isSpace :: "char \<Rightarrow> bool" where
  "isSpace c = (code c \<in> {9, 10, 11, 12, 13, 32, 160})"

definition isDigit :: "char \<Rightarrow> bool" where
  "isDigit c = (48 \<le> code c \<and> code c \<le> 57)"

definition trim :: "string \<Rightarrow> string" where
  "trim s = rev (dropWhile isSpace (rev (dropWhile isSpace s)))"

text \<open>The value of a digit, for the bases up to 16, and of a string of digits of a base;
  a string with no digit at all, or with another character, has none.\<close>

definition digitVal :: "char \<Rightarrow> nat option" where
  "digitVal c =
     (if 48 \<le> code c \<and> code c \<le> 57 then Some (code c - 48)
      else if 97 \<le> code c \<and> code c \<le> 102 then Some (code c - 87)
      else if 65 \<le> code c \<and> code c \<le> 70 then Some (code c - 55)
      else None)"

fun digitsIn :: "nat \<Rightarrow> int \<Rightarrow> string \<Rightarrow> int option" where
  "digitsIn base acc [] = Some acc"
| "digitsIn base acc (c # cs) =
     (case digitVal c of
        None \<Rightarrow> None
      | Some d \<Rightarrow> if d < base then digitsIn base (acc * int base + int d) cs else None)"

definition digitString :: "nat \<Rightarrow> string \<Rightarrow> int option" where
  "digitString base s = (if s = [] then None else digitsIn base 0 s)"

definition signedInteger :: "string \<Rightarrow> int option" where
  "signedInteger s =
     (if s \<noteq> [] \<and> hd s = CHR ''+'' then digitString 10 (tl s)
      else if s \<noteq> [] \<and> hd s = CHR ''-'' then map_option uminus (digitString 10 (tl s))
      else digitString 10 s)"

text \<open>An unsigned decimal literal: \<open>Infinity\<close>, or digits with an optional fraction and an
  optional exponent, with a digit before or after the point.\<close>

definition unsignedDecimal :: "string \<Rightarrow> jsnum" where
  "unsignedDecimal t =
     (if t = ''Infinity'' then PosInf
      else
        let ip = takeWhile isDigit t;
            r1 = dropWhile isDigit t;
            dotted = (r1 \<noteq> [] \<and> hd r1 = CHR ''.'');
            fp = (if dotted then takeWhile isDigit (tl r1) else []);
            r2 = (if dotted then dropWhile isDigit (tl r1) else r1);
            ex = (if r2 = [] then Some 0
                  else if hd r2 = CHR ''e'' \<or> hd r2 = CHR ''E'' then signedInteger (tl r2)
                  else None)
        in if ip = [] \<and> fp = [] then NaN
           else (case ex of
                   None \<Rightarrow> NaN
                 | Some x \<Rightarrow>
                     (case digitString 10 (ip @ fp) of
                        None \<Rightarrow> NaN
                      | Some m \<Rightarrow> Finite m (x - int (length fp)))))"

fun negate :: "jsnum \<Rightarrow> jsnum" where
  "negate NaN = NaN"
| "negate (Finite m e) = Finite (- m) e"
| "negate PosInf = NegInf"
| "negate NegInf = PosInf"

text \<open>A literal with a radix prefix (\<open>0x\<close>, \<open>0o\<close>, \<open>0b\<close>, in either case), which takes no
  sign; \<open>None\<close> when the string has no such prefix.\<close>

definition radixLiteral :: "string \<Rightarrow> jsnum option" where
  "radixLiteral t =
     (if 2 \<le> length t \<and> hd t = CHR ''0'' then
        (let p = hd (tl t);
             base = (if p = CHR ''x'' \<or> p = CHR ''X'' then 16
                     else if p = CHR ''o'' \<or> p = CHR ''O'' then 8
                     else if p = CHR ''b'' \<or> p = CHR ''B'' then 2
                     else 0)
         in if base = 0 then None
            else (case digitString base (tl (tl t)) of
                    None \<Rightarrow> Some NaN
                  | Some m \<Rightarrow> Some (Finite m 0)))
      else None)"

text \<open>
  The number a string stands for: white space around it is dropped, the empty string is
  0, and what is left is a literal with a radix prefix or a decimal literal with an
  optional sign; any other string is \<open>NaN\<close>. The value of a decimal literal is kept
  exactly: the rounding of the language to a double is not modelled.
\<close>

definition stringToNumber :: "string \<Rightarrow> jsnum" where
  "stringToNumber s =
     (let t = trim s in
      if t = [] then Finite 0 0
      else (case radixLiteral t of
              Some n \<Rightarrow> n
            | None \<Rightarrow>
                if hd t = CHR ''+'' then unsignedDecimal (tl t)
                else if hd t = CHR ''-'' then negate (unsignedDecimal (tl t))
                else unsignedDecimal t))"

fun toNumber :: "jsval \<Rightarrow> jsnum" where
  "toNumber JUndefined = NaN"
| "toNumber JNull = Finite 0 0"
| "toNumber JNaN = NaN"
| "toNumber (JNum n) = Finite n 0"
| "toNumber (JStr s) = stringToNumber s"

text \<open>The order of the numbers, \<open>None\<close> when one of them is \<open>NaN\<close>. Two decimal values
  are brought to their smaller exponent and compared as integers.\<close>

fun numLess :: "jsnum \<Rightarrow> jsnum \<Rightarrow> bool option" where
  "numLess NaN b = None"
| "numLess a NaN = None"
| "numLess PosInf b = Some False"
| "numLess NegInf NegInf = Some False"
| "numLess NegInf b = Some True"
| "numLess (Finite m e) PosInf = Some True"
| "numLess (Finite m e) NegInf = Some False"
| "numLess (Finite m1 e1) (Finite m2 e2) =
     Some (m1 * 10 ^ nat (e1 - min e1 e2) < m2 * 10 ^ nat (e2 - min e1 e2))"

fun strLess :: "string \<Rightarrow> string \<Rightarrow> bool" where
  "strLess [] [] = False"
| "strLess [] (b # bs) = True"
| "strLess (a # as) [] = False"
| "strLess (a # as) (b # bs) = (code a < code b \<or> (a = b \<and> strLess as bs))"

text \<open>The comparison \<open>a < b\<close> of the language, \<open>None\<close> when it is undefined: two strings
  are compared code unit by code unit, anything else as numbers.\<close>

fun jsLess :: "jsval \<Rightarrow> jsval \<Rightarrow> bool option" where
  "jsLess (JStr x) (JStr y) = Some (strLess x y)"
| "jsLess a b = numLess (toNumber a) (toNumber b)"

definition jsLt :: "jsval \<Rightarrow> jsval \<Rightarrow> bool" where
  "jsLt a b = (jsLess a b = Some True)"

definition jsLe :: "jsval \<Rightarrow> jsval \<Rightarrow> bool" where
  "jsLe a b = (jsLess b a = Some False)"

definition jsGe :: "jsval \<Rightarrow> jsval \<Rightarrow> bool" where
  "jsGe a b = (jsLess a b = Some False)"

section \<open>The validator\<close>

datatype error = TypeError

record validation =
  anchor :: string
  errorTag :: "string option"
  errorClass :: string
  errorDisplay :: string
  jump :: bool
  multiClass :: string
  prefix :: string
  suffix :: string
  fileTypes :: "string \<rightharpoonup> string list"
  validationExp :: "string \<rightharpoonup> regex"

subsection \<open>The built-in tables\<close>

definition topLevelDomains :: "string list" where
  "topLevelDomains =
    [''ac'', ''ad'', ''ae'', ''aero'', ''af'', ''ag'', ''ai'', ''al'', ''am'', ''an'',
     ''ao'', ''aq'', ''ar'', ''arpa'', ''as'', ''asia'', ''at'', ''au'', ''aw'', ''ax'',
     ''az'', ''ba'', ''bb'', ''bd'', ''be'', ''bf'', ''bg'', ''bh'', ''bi'', ''biz'',
     ''bj'', ''bm'', ''bn'', ''bo'', ''br'', ''bs'', ''bt'', ''bv'', ''bw'', ''by'',
     ''bz'', ''ca'', ''cat'', ''cc'', ''cd'', ''cf'', ''cg'', ''ch'', ''ci'', ''ck'',
     ''cl'', ''cm'', ''cn'', ''co'', ''com'', ''coop'', ''cr'', ''cu'', ''cv'', ''cx'',
     ''cy'', ''cz'', ''de'', ''dj'', ''dk'', ''dm'', ''do'', ''dz'', ''ec'', ''edu'',
     ''ee'', ''eg'', ''er'', ''es'', ''et'', ''eu'', ''fi'', ''fj'', ''fk'', ''fm'',
     ''fo'', ''fr'', ''ga'', ''gb'', ''gd'', ''ge'', ''gf'', ''gg'', ''gh'', ''gi'',
     ''gl'', ''gm'', ''gn'', ''gov'', ''gp'', ''gq'', ''gr'', ''gs'', ''gt'', ''gu'',
     ''gw'', ''gy'', ''hk'', ''hm'', ''hn'', ''hr'', ''ht'', ''hu'', ''id'', ''ie'',
     ''il'', ''im'', ''in'', ''info'', ''int'', ''io'', ''iq'', ''ir'', ''is'', ''it'',
     ''je'', ''jm'', ''jo'', ''jobs'', ''jp'', ''ke'', ''kg'', ''kh'', ''ki'', ''km'',
     ''kn'', ''kp'', ''kr'', ''kw'', ''ky'', ''kz'', ''la'', ''lb'', ''lc'', ''li'',
     ''lk'', ''lr'', ''ls'', ''lt'', ''lu'', ''lv'', ''ly'', ''ma'', ''mc'', ''md'',
     ''me'', ''mg'', ''mh'', ''mil'', ''mk'', ''ml'', ''mm'', ''mn'', ''mo'', ''mobi'',
     ''mp'', ''mq'', ''mr'', ''ms'', ''mt'', ''mu'', ''museum'', ''mv'', ''mw'', ''mx'',
     ''my'', ''mz'', ''na'', ''name'', ''nc'', ''ne'', ''net'', ''nf'', ''ng'', ''ni'',
     ''nl'', ''no'', ''np'', ''nr'', ''nu'', ''nz'', ''om'', ''org'', ''pa'', ''pe'',
     ''pf'', ''pg'', ''ph'', ''pk'', ''pl'', ''pm'', ''pn'', ''pr'', ''pro'', ''ps'',
     ''pt'', ''pw'', ''py'', ''qa'', ''re'', ''ro'', ''rs'', ''ru'', ''rw'', ''sa'',
     ''sb'', ''sc'', ''sd'', ''se'', ''sg'', ''sh'', ''si'', ''sj'', ''sk'', ''sl'',
     ''sm'', ''sn'', ''so'', ''sr'', ''st'', ''su'', ''sv'', ''sy'', ''sz'', ''tc'',
     ''td'', ''tel'', ''tf'', ''tg'', ''th'', ''tj'', ''tk'', ''tl'', ''tm'', ''tn'',
     ''to'', ''tp'', ''tr'', ''travel'', ''tt'', ''tv'', ''tw'', ''tz'', ''ua'', ''ug'',
     ''uk'', ''us'', ''uy'', ''uz'', ''va'', ''vc'', ''ve'', ''vg'', ''vi'', ''vn'',
     ''vu'', ''wf'', ''ws'', ''xn'', ''ye'', ''yt'', ''yu'', ''za'', ''zm'', ''zw'']"

definition alnum :: "(char \<times> char) list" where
  "alnum = [(CHR ''a'', CHR ''z''), (CHR ''A'', CHR ''Z''), (CHR ''0'', CHR ''9'')]"

definition hyphen :: "char \<times> char" where
  "hyphen = (CHR ''-'', CHR ''-'')"

definition alphaExp :: regex where
  "alphaExp =
     many1 (Chr (OneOf [(CHR ''a'', CHR ''z''), (CHR ''A'', CHR ''Z''), (CHR 0xC0, CHR 0xFF)]))"

definition alphanumExp :: regex where
  "alphanumExp = many1 (Chr (OneOf (alnum @ [(CHR 0xC0, CHR 0xFF)])))"

text \<open>The two dots of the domain expression are unescaped in the pattern the constructor
  builds (the backslash of \<open>'\.'\<close> is dropped by the string literal), so both stand for
  any code unit but a line terminator.\<close>

definition domainLabels :: regex where
  "domainLabels = Many (Seq (Many (Chr (OneOf (alnum @ [(CHR ''_'', CHR ''_''), hyphen])))) dot)"

definition domainName :: regex where
  "domainName =
     many1 (Seq (Chr (OneOf alnum))
                (opt (Seq (Many (Chr (OneOf (alnum @ [hyphen])))) (Chr (OneOf alnum)))))"

definition domainExp :: regex where
  "domainExp = Seq domainLabels (Seq domainName (Seq dot (alts (map lit topLevelDomains))))"

definition emailLocalExp :: regex where
  "emailLocalExp = repBetween 1 255 dot"

definition numExp :: regex where
  "numExp = many1 (Chr digit)"

definition phoneExp :: regex where
  "phoneExp =
     repBetween 10 25
       (Chr (OneOf [(CHR ''0'', CHR ''9''), (CHR ''.'', CHR ''.''), (CHR ''('', CHR ''(''),
                    (CHR '')'', CHR '')''), (CHR ''+'', CHR ''+''), (CHR '' '', CHR '' ''),
                    hyphen]))"

definition urlExp :: regex where
  "urlExp = Seq (lit ''http'') (Seq (opt (lit ''s'')) (Seq (lit ''://'') (many1 dot)))"

text \<open>The constructor: the properties of the prototype and the two tables.\<close>

definition Validation :: validation where
  "Validation =
     \<lparr> anchor = '''', errorTag = None, errorClass = ''error'', errorDisplay = ''block'',
       jump = False, multiClass = ''m'', prefix = ''v-'', suffix = ''-err'',
       fileTypes = map_of
         [(''audio'', [''mp3'', ''mp4'', ''flac'', ''ogg'', ''wma'', ''wav'']),
          (''image'', [''bmp'', ''gif'', ''jpg'', ''jpeg'', ''png'', ''tif'', ''raw'']),
          (''pdf'', [''pdf'']),
          (''text'', [''txt'']),
          (''html'', [''html'', ''htm'']),
          (''video'', [''mov'', ''mpeg'', ''mpg'', ''avi'', ''ogm'', ''wmv''])],
       validationExp = map_of
         [(''alpha'', alphaExp), (''alphanum'', alphanumExp), (''domain'', domainExp),
          (''email-local'', emailLocalExp), (''num'', numExp), (''phone'', phoneExp),
          (''url'', urlExp)] \<rparr>"

subsection \<open>The form and its controls\<close>

text \<open>
  A control carries the properties the program reads. \<open>form.elements[name]\<close> is a single
  control, a collection of the controls that share the name, or nothing. A collection
  has a \<open>length\<close> and indexed members, and no \<open>type\<close>, \<open>disabled\<close>, \<open>readonly\<close> or
  \<open>checked\<close> of its own; its \<open>value\<close> is that of its first checked radio button, or the
  empty string. A single control has no \<open>length\<close> (a select element has one, but \<open>check\<close>
  sends it to \<open>checkSelect\<close>, which does not read it).
\<close>

record control =
  ctype :: string
  cvalue :: string
  disabled :: bool
  readonly :: bool
  checked :: bool
  options :: "string list"
  selectedIndex :: int

datatype entry = Single control | Group "control list"

type_synonym form = "string \<rightharpoonup> entry"

fun entryType :: "entry \<Rightarrow> string option" where
  "entryType (Single c) = Some (ctype c)"
| "entryType (Group cs) = None"

fun entryLength :: "entry \<Rightarrow> jsval" where
  "entryLength (Single c) = JUndefined"
| "entryLength (Group cs) = JNum (int (length cs))"

fun entryAt :: "entry \<Rightarrow> int \<Rightarrow> control option" where
  "entryAt (Single c) i = None"
| "entryAt (Group cs) i = (if 0 \<le> i \<and> i < int (length cs) then Some (cs ! nat i) else None)"

fun entryValue :: "entry \<Rightarrow> string" where
  "entryValue (Single c) = cvalue c"
| "entryValue (Group cs) =
     (case filter (\<lambda>c. ctype c = ''radio'' \<and> checked c) cs of [] \<Rightarrow> [] | c # _ \<Rightarrow> cvalue c)"

fun entryChecked :: "entry \<Rightarrow> bool" where
  "entryChecked (Single c) = checked c"
| "entryChecked (Group cs) = False"

fun isDisabled :: "entry \<Rightarrow> bool" where
  "isDisabled (Single c) = disabled c"
| "isDisabled (Group cs) = False"

fun isReadOnly :: "entry \<Rightarrow> bool" where
  "isReadOnly (Single c) = readonly c"
| "isReadOnly (Group cs) = False"

definition formGet :: "form \<Rightarrow> string \<Rightarrow> entry option" where
  "formGet F fieldName =
     (case F fieldName of
        Some e \<Rightarrow> Some e
      | None \<Rightarrow> (case F (fieldName @ ''[]'') of Some e \<Rightarrow> Some e | None \<Rightarrow> None))"

subsection \<open>Field names and class names\<close>

fun getFieldNameLoop :: "string \<Rightarrow> string list \<Rightarrow> string \<Rightarrow> string" where
  "getFieldNameLoop multi [] field = field"
| "getFieldNameLoop multi (c # classArr) field =
     (if c = multi then substring field 0 (lastIndexOf field ''-'')
      else getFieldNameLoop multi classArr field)"

definition getFieldName :: "validation \<Rightarrow> string \<Rightarrow> string option \<Rightarrow> string" where
  "getFieldName V errorId className =
     (let className' = (case className of None \<Rightarrow> [] | Some c \<Rightarrow> c);
          field = substring errorId 0 (int (length errorId) - int (length (suffix V)));
          classArr = jsSplit CHR '' '' className';
          multi = prefix V @ multiClass V
      in getFieldNameLoop multi classArr field)"

record ruleSpec =
  methodName :: string
  args :: "string list"

definition splitClassName :: "validation \<Rightarrow> string \<Rightarrow> ruleSpec" where
  "splitClassName V className =
     (let className' = (if 0 \<le> indexOf className (prefix V)
                        then substringFrom className (int (length (prefix V)))
                        else className);
          classArgs = jsSplit CHR ''-'' className';
          cleanArgs = filter (\<lambda>a. length a \<noteq> 0) classArgs
      in case cleanArgs of
           [] \<Rightarrow> \<lparr> methodName = [], args = [] \<rparr>
         | [m] \<Rightarrow> \<lparr> methodName = m, args = [] \<rparr>
         | m # rest \<Rightarrow> \<lparr> methodName = m, args = rest \<rparr>)"

subsection \<open>The rules\<close>

definition isEqual :: "string \<Rightarrow> string \<Rightarrow> bool" where
  "isEqual firstValue secondValue = (firstValue = secondValue)"

definition hasValue :: "string \<Rightarrow> bool" where
  "hasValue v = (length v \<noteq> 0)"

text \<open>A key that the table lacks gives \<open>undefined\<close>, or a member of \<open>Object.prototype\<close> that
  has no \<open>test\<close>; either way the call of \<open>test\<close> raises.\<close>

definition isValidRegExp :: "validation \<Rightarrow> string \<Rightarrow> string \<Rightarrow> error + bool" where
  "isValidRegExp V v expression =
     (case validationExp V expression of
        None \<Rightarrow> Inl TypeError
      | Some r \<Rightarrow> Inr (test r v))"

definition isValidEmail :: "validation \<Rightarrow> string \<Rightarrow> error + bool" where
  "isValidEmail V v =
     (if indexOf v ''@'' = - 1 then Inr False
      else let sep = lastIndexOf v ''@'' in
        case isValidRegExp V (substringFrom v (sep + 1)) ''domain'' of
          Inl e \<Rightarrow> Inl e
        | Inr ok \<Rightarrow>
            if \<not> ok then Inr False
            else isValidRegExp V (substring v 0 sep) ''email-local'')"

definition isValidLength :: "string \<Rightarrow> jsval \<Rightarrow> jsval \<Rightarrow> bool" where
  "isValidLength v mn mx =
     (if \<not> truthy mx then jsGe (JNum (int (length v))) mn
      else jsLe mn mx \<and> jsGe (JNum (int (length v))) mn \<and> jsLe (JNum (int (length v))) mx)"

definition getFileExtension :: "string \<Rightarrow> string" where
  "getFileExtension v = substringFrom v (lastIndexOf v ''.'' + 1)"

fun fileTypeLoop :: "string list \<Rightarrow> string \<Rightarrow> bool" where
  "fileTypeLoop [] v = False"
| "fileTypeLoop (x # filetype) v = (if x = v then True else fileTypeLoop filetype v)"

text \<open>An argument that is absent is \<open>undefined\<close>; used as a key it is the string
  \<open>undefined\<close>.\<close>

definition argAt :: "string list \<Rightarrow> nat \<Rightarrow> string option" where
  "argAt as i = (if i < length as then Some (as ! i) else None)"

definition toKey :: "string option \<Rightarrow> string" where
  "toKey a = (case a of None \<Rightarrow> ''undefined'' | Some s \<Rightarrow> s)"

text \<open>The tables are plain objects, so a key that a table lacks may still be found on
  \<open>Object.prototype\<close>. What is found there is a function, which has a numeric \<open>length\<close> and
  no indexed member, or the prototype itself, which has no \<open>length\<close>.\<close>

definition objectPrototypeKeys :: "string list" where
  "objectPrototypeKeys =
     [''constructor'', ''toString'', ''toLocaleString'', ''valueOf'', ''hasOwnProperty'',
      ''isPrototypeOf'', ''propertyIsEnumerable'', ''__proto__'', ''__defineGetter__'',
      ''__defineSetter__'', ''__lookupGetter__'', ''__lookupSetter__'']"

text \<open>With a group of the table the loop looks for the extension among its members. With
  an inherited key the loop finds no member equal to the extension and the answer is
  false. With any other key the group is \<open>undefined\<close> and reading its \<open>length\<close> raises.\<close>

definition isValidFileExtension :: "validation \<Rightarrow> string \<Rightarrow> string option \<Rightarrow> error + bool" where
  "isValidFileExtension V v filetype =
     (let v' = toLowerCase (getFileExtension v) in
      case fileTypes V (toKey filetype) of
        None \<Rightarrow>
          if toKey filetype \<in> set objectPrototypeKeys then Inr False else Inl TypeError
      | Some exts \<Rightarrow> Inr (fileTypeLoop exts v'))"

text \<open>The arguments of the length rule: the strings of the class name, followed by
  \<open>null\<close> when there is exactly one.\<close>

definition lenArgs :: "string list \<Rightarrow> jsval list" where
  "lenArgs as = map JStr as @ (if length as = 1 then [JNull] else [])"

definition valAt :: "jsval list \<Rightarrow> nat \<Rightarrow> jsval" where
  "valAt vs i = (if i < length vs then vs ! i else JUndefined)"

definition quote :: string where
  "quote = [CHR 0x22]"

text \<open>The switch of \<open>validateHandler\<close> on the method name of one class name. It answers the
  verdict together with the value, which the file rule may have shortened for the class
  names that follow.\<close>

definition switchMethod ::
  "validation \<Rightarrow> form \<Rightarrow> ruleSpec \<Rightarrow> string \<Rightarrow> (error + bool) \<times> string" where
  "switchMethod V F classNameParts v =
     (let m = methodName classNameParts; as = args classNameParts in
      if m = ''email'' then (isValidEmail V v, v)
      else if m = ''file'' \<or> m = ''upload'' then
        (let v' = (if charAt v (int (length v) - 1) = quote
                   then substring v 0 (int (length v) - 2) else v)
         in (isValidFileExtension V v' (argAt as 0), v'))
      else if m = ''len'' then
        (Inr (isValidLength v (valAt (lenArgs as) 0) (valAt (lenArgs as) 1)), v)
      else if m = ''match'' \<or> m = ''eq'' \<or> m = ''equal'' then
        (case formGet F (toKey (argAt as 0)) of
           None \<Rightarrow> (Inl TypeError, v)
         | Some e \<Rightarrow> (Inr (isEqual v (entryValue e)), v))
      else if m = ''required'' \<or> m = ''error'' \<or> m = errorClass V then (Inr (hasValue v), v)
      else if m = multiClass V then (Inr True, v)
      else (isValidRegExp V v m, v))"

text \<open>The loop of \<open>validateHandler\<close> over the class names. Its condition is the class
  name itself, so the loop ends at the end of the array and also at an empty class name.\<close>

fun validateLoop :: "validation \<Rightarrow> form \<Rightarrow> string list \<Rightarrow> string \<Rightarrow> error + bool" where
  "validateLoop V F [] v = Inr True"
| "validateLoop V F (className # classArr) v =
     (if className = [] then Inr True
      else if substring className 0 (int (length (prefix V))) = prefix V then
        (case switchMethod V F (splitClassName V className) v of
           (Inl e, v') \<Rightarrow> Inl e
         | (Inr ok, v') \<Rightarrow> if \<not> ok then Inr False else validateLoop V F classArr v')
      else validateLoop V F classArr v)"

definition validateHandler :: "validation \<Rightarrow> form \<Rightarrow> string \<Rightarrow> string \<Rightarrow> error + bool" where
  "validateHandler V F className v = validateLoop V F (jsSplit CHR '' '' className) v"

subsection \<open>The checks of the control types\<close>

function checkCheckboxLoop :: "entry \<Rightarrow> int \<Rightarrow> error + bool" where
  "checkCheckboxLoop field i =
     (if jsLt (JNum i) (entryLength field) then
        (case entryAt field i of
           None \<Rightarrow> Inl TypeError
         | Some c \<Rightarrow>
             if \<not> isDisabled (Single c) \<and> checked c then Inr True
             else checkCheckboxLoop field (i + 1))
      else Inr False)"
  by pat_completeness auto
termination
proof (relation "measure (\<lambda>(field, i). case entryLength field of JNum n \<Rightarrow> nat (n - i) | _ \<Rightarrow> 0)")
  fix field :: entry and i :: int and c :: control
  assume "jsLt (JNum i) (entryLength field)"
  then show "((field, i + 1), (field, i))
      \<in> measure (\<lambda>(field, i). case entryLength field of JNum n \<Rightarrow> nat (n - i) | _ \<Rightarrow> 0)"
    by (cases field) (auto simp: jsLt_def)
qed simp

definition checkCheckbox :: "form \<Rightarrow> string \<Rightarrow> error + bool" where
  "checkCheckbox F fieldName =
     (case formGet F fieldName of
        None \<Rightarrow> Inl TypeError
      | Some field \<Rightarrow>
          if truthy (entryLength field) then checkCheckboxLoop field 0
          else Inr (isDisabled field \<or> entryChecked field))"

function checkRadioLoop :: "entry \<Rightarrow> int \<Rightarrow> error + bool" where
  "checkRadioLoop radioGroup i =
     (if jsLt (JNum i) (entryLength radioGroup) then
        (case entryAt radioGroup i of
           None \<Rightarrow> Inl TypeError
         | Some c \<Rightarrow> if checked c then Inr True else checkRadioLoop radioGroup (i + 1))
      else Inr False)"
  by pat_completeness auto
termination
proof (relation "measure (\<lambda>(field, i). case entryLength field of JNum n \<Rightarrow> nat (n - i) | _ \<Rightarrow> 0)")
  fix field :: entry and i :: int and c :: control
  assume "jsLt (JNum i) (entryLength field)"
  then show "((field, i + 1), (field, i))
      \<in> measure (\<lambda>(field, i). case entryLength field of JNum n \<Rightarrow> nat (n - i) | _ \<Rightarrow> 0)"
    by (cases field) (auto simp: jsLt_def)
qed simp

definition checkRadio :: "form \<Rightarrow> string \<Rightarrow> error + bool" where
  "checkRadio F fieldName =
     (case formGet F fieldName of
        None \<Rightarrow> Inl TypeError
      | Some radioGroup \<Rightarrow> checkRadioLoop radioGroup 0)"

definition checkText :: "validation \<Rightarrow> form \<Rightarrow> string \<Rightarrow> string \<Rightarrow> error + bool" where
  "checkText V F fieldName className =
     (case formGet F fieldName of
        None \<Rightarrow> Inl TypeError
      | Some field \<Rightarrow>
          if isDisabled field \<or> isReadOnly field then Inr True
          else validateHandler V F className (entryValue field))"

text \<open>The selected option is \<open>options[selectedIndex]\<close>; reading its value raises when
  there is no such option (no selection gives the index \<open>-1\<close>) or no \<open>options\<close> at all.\<close>

definition checkSelect :: "form \<Rightarrow> string \<Rightarrow> error + bool" where
  "checkSelect F fieldName =
     (case formGet F fieldName of
        None \<Rightarrow> Inl TypeError
      | Some field \<Rightarrow>
          if isDisabled field then Inr True
          else (case field of
                  Group cs \<Rightarrow> Inl TypeError
                | Single c \<Rightarrow>
                    if 0 \<le> selectedIndex c \<and> selectedIndex c < int (length (options c))
                    then Inr (hasValue (options c ! nat (selectedIndex c)))
                    else Inl TypeError))"

definition checkTextArea :: "form \<Rightarrow> string \<Rightarrow> error + bool" where
  "checkTextArea F fieldName =
     (case formGet F fieldName of
        None \<Rightarrow> Inl TypeError
      | Some field \<Rightarrow>
          if isDisabled field \<or> isReadOnly field then Inr True
          else Inr (hasValue (entryValue field)))"

definition checkFileUpload :: "validation \<Rightarrow> form \<Rightarrow> string \<Rightarrow> string \<Rightarrow> error + bool" where
  "checkFileUpload V F fieldName className =
     (case formGet F fieldName of
        None \<Rightarrow> Inl TypeError
      | Some field \<Rightarrow>
          if isDisabled field then Inr True
          else validateHandler V F className (entryValue field))"

text \<open>The type of the field: that of the control, or of the first member of a
  collection.\<close>

definition fieldType :: "form \<Rightarrow> string \<Rightarrow> error + string" where
  "fieldType F fieldName =
     (case formGet F fieldName of
        None \<Rightarrow> Inl TypeError
      | Some field \<Rightarrow>
          (case entryType field of
             Some t \<Rightarrow> Inr t
           | None \<Rightarrow> (case entryAt field 0 of None \<Rightarrow> Inl TypeError | Some c \<Rightarrow> Inr (ctype c))))"

definition check :: "validation \<Rightarrow> form \<Rightarrow> string \<Rightarrow> string \<Rightarrow> error + bool" where
  "check V F fieldName className =
     (case fieldType F fieldName of
        Inl e \<Rightarrow> Inl e
      | Inr t \<Rightarrow>
          if t = ''checkbox'' then checkCheckbox F fieldName
          else if t = ''text'' \<or> t = ''password'' then checkText V F fieldName className
          else if t = ''select-one'' \<or> t = ''select-multiple'' then checkSelect F fieldName
          else if t = ''textarea'' then checkTextArea F fieldName
          else if t = ''file'' then checkFileUpload V F fieldName className
          else if t = ''radio'' then checkRadio F fieldName
          else Inr True)"

subsection \<open>Error messages and their display\<close>

text \<open>
  The descendants of the form, in document order, with what the program reads and writes
  of each: the tag name, the \<open>id\<close>, the class attribute and \<open>style.display\<close>. An element is
  referred to by its position in this list.
\<close>

record element =
  nodeTag :: string
  nodeId :: string
  nodeClass :: string
  nodeDisplay :: string

text \<open>The expression built by \<open>getElementsByClass\<close> from the two class names that
  \<open>isValid\<close> and \<open>hideAllErrors\<close> pass: the names joined by a bar between \<open>^[a-zA-Z0-9 -]*\<close> and
  \<open>[a-zA-Z0-9 -]*$\<close>. The bar splits the whole pattern, so the first alternative is free at
  its end and the second at its start. The two names are taken as literal text: a name
  with a character that the pattern language reads as an operator is outside the model.\<close>

definition wordChars :: cset where
  "wordChars = OneOf (alnum @ [(CHR '' '', CHR '' ''), hyphen])"

definition classExpr :: "string \<Rightarrow> string \<Rightarrow> regex" where
  "classExpr c1 c2 =
     Alt (Seq (Many (Chr wordChars)) (Seq (lit c1) (Many anyChar)))
         (Seq (Many anyChar) (Seq (lit c2) (Many (Chr wordChars))))"

definition tagMatches :: "string \<Rightarrow> element \<Rightarrow> bool" where
  "tagMatches t e = (t = ''*'' \<or> toLowerCase t = toLowerCase (nodeTag e))"

definition getElementsByClass ::
  "string \<Rightarrow> string \<Rightarrow> element list \<Rightarrow> string option \<Rightarrow> nat list" where
  "getElementsByClass c1 c2 parentEl tagName =
     (let t = (case tagName of None \<Rightarrow> ''*'' | Some x \<Rightarrow> if x = [] then ''*'' else x);
          children = filter (\<lambda>i. tagMatches t (parentEl ! i)) [0..<length parentEl]
      in filter (\<lambda>i. test (classExpr c1 c2) (nodeClass (parentEl ! i))) children)"

definition display :: "validation \<Rightarrow> element list \<Rightarrow> nat \<Rightarrow> bool \<Rightarrow> element list" where
  "display V N i shown =
     N[i := (N ! i)\<lparr> nodeDisplay := (if shown then errorDisplay V else ''none'') \<rparr>]"

definition hideAllErrors :: "validation \<Rightarrow> element list \<Rightarrow> element list" where
  "hideAllErrors V N =
     fold (\<lambda>i N'. display V N' i False)
       (getElementsByClass (errorClass V) (prefix V) N (errorTag V)) N"

subsection \<open>isValid\<close>

text \<open>The page: the elements under the form, the controls of the form by name, the
  address of the window and the control that has the focus.\<close>

record page =
  nodes :: "element list"
  elements :: form
  location :: string
  focused :: "control option"

text \<open>The variables of the loop of \<open>isValid\<close>. The last field is not a variable of the
  program: it records, in order, the elements for which \<open>check\<close> was called.\<close>

record loopVars =
  valid :: bool
  firstErrorId :: string
  lastFailedField :: string
  evaluated :: "nat list"

fun isValidLoop ::
  "validation \<Rightarrow> form \<Rightarrow> nat list \<Rightarrow> loopVars \<Rightarrow> element list
     \<Rightarrow> error option \<times> loopVars \<times> element list" where
  "isValidLoop V F [] vars N = (None, vars, N)"
| "isValidLoop V F (i # errorMsgs) vars N =
     (let errorMsg = N ! i;
          formElementId = getFieldName V (nodeId errorMsg) (Some (nodeClass errorMsg))
      in if formElementId \<noteq> [] \<and> formElementId \<noteq> lastFailedField vars then
           (case check V F formElementId (nodeClass errorMsg) of
              Inl e \<Rightarrow> (Some e, vars\<lparr> evaluated := evaluated vars @ [i] \<rparr>, N)
            | Inr ok \<Rightarrow>
                isValidLoop V F errorMsgs
                  (if \<not> ok
                   then vars\<lparr> firstErrorId := (if valid vars then nodeId errorMsg
                                                 else firstErrorId vars),
                              valid := False,
                              lastFailedField := formElementId,
                              evaluated := evaluated vars @ [i] \<rparr>
                   else vars\<lparr> evaluated := evaluated vars @ [i] \<rparr>)
                  (display V N i (\<not> ok)))
         else isValidLoop V F errorMsgs vars N)"

text \<open>\<open>focus\<close> calls the \<open>focus\<close> of the field and, when that raises, the one of its first
  member. A collection has no \<open>focus\<close> of its own.\<close>

definition focus :: "entry option \<Rightarrow> page \<Rightarrow> error option \<times> page" where
  "focus field P =
     (case field of
        None \<Rightarrow> (Some TypeError, P)
      | Some (Single c) \<Rightarrow> (None, P\<lparr> focused := Some c \<rparr>)
      | Some (Group cs) \<Rightarrow>
          (case entryAt (Group cs) 0 of
             None \<Rightarrow> (Some TypeError, P)
           | Some c \<Rightarrow> (None, P\<lparr> focused := Some c \<rparr>)))"

definition initVars :: loopVars where
  "initVars = \<lparr> valid = True, firstErrorId = [], lastFailedField = [], evaluated = [] \<rparr>"

definition runLoop :: "validation \<Rightarrow> page \<Rightarrow> error option \<times> loopVars \<times> element list" where
  "runLoop V P =
     (let N = hideAllErrors V (nodes P);
          errorMsgs = getElementsByClass (errorClass V) (prefix V) N (errorTag V)
      in isValidLoop V (elements P) errorMsgs initVars N)"

text \<open>\<open>isValid\<close> on the form the validator is bound to. It answers the boolean, or the
  error that was raised, and the page as the call leaves it.\<close>

definition isValid :: "validation \<Rightarrow> page \<Rightarrow> (error + bool) \<times> page" where
  "isValid V P =
     (case runLoop V P of
        (Some e, vars, N) \<Rightarrow> (Inl e, P\<lparr> nodes := N \<rparr>)
      | (None, vars, N) \<Rightarrow>
          if \<not> valid vars then
            (let P1 = P\<lparr> nodes := N \<rparr>;
                 P2 = (if jump V
                       then P1\<lparr> location := (if length (anchor V) \<noteq> 0 then anchor V
                                               else ''#'' @ firstErrorId vars) \<rparr>
                       else P1)
             in case focus (formGet (elements P2) (getFieldName V (firstErrorId vars) None)) P2 of
                  (Some e, P3) \<Rightarrow> (Inl e, P3)
                | (None, P3) \<Rightarrow> (Inr False, P3))
          else (Inr True, P\<lparr> nodes := N \<rparr>))"

section \<open>Example forms\<close>

definition loneRadio :: control where
  "loneRadio = \<lparr> ctype = ''radio'', cvalue = ''on'', disabled = False, readonly = False,
                 checked = True, options = [], selectedIndex = - 1 \<rparr>"

section \<open>Notions for the statements about the rule chain\<close>

text \<open>A class name is a rule token when it begins with the prefix. The verdict of a rule
  token on a value is that of the switch on its parsed form; the value it leaves for the
  class names that follow is the one the switch hands back (a class name that is no rule
  token leaves the value alone).\<close>

definition ruleToken :: "validation \<Rightarrow> string \<Rightarrow> bool" where
  "ruleToken V tok = (take (length (prefix V)) tok = prefix V)"

text \<open>The parse that the specification describes, of a class name without its prefix:
  the pieces between the hyphens, the empty ones dropped; the first piece is the method and
  the others are its arguments, and with no piece at all the method is empty.\<close>

definition specRule :: "string \<Rightarrow> ruleSpec" where
  "specRule s =
     (case filter (\<lambda>a. a \<noteq> []) (jsSplit CHR ''-'' s) of
        [] \<Rightarrow> \<lparr> methodName = [], args = [] \<rparr>
      | m # as \<Rightarrow> \<lparr> methodName = m, args = as \<rparr>)"

definition ruleVerdict :: "validation \<Rightarrow> form \<Rightarrow> string \<Rightarrow> string \<Rightarrow> error + bool" where
  "ruleVerdict V F tok v = fst (switchMethod V F (splitClassName V tok) v)"

definition ruleValue :: "validation \<Rightarrow> form \<Rightarrow> string \<Rightarrow> string \<Rightarrow> string" where
  "ruleValue V F tok v =
     (if ruleToken V tok then snd (switchMethod V F (splitClassName V tok) v) else v)"

definition valueAfter :: "validation \<Rightarrow> form \<Rightarrow> string list \<Rightarrow> string \<Rightarrow> string" where
  "valueAfter V F toks v = foldl (\<lambda>w tok. ruleValue V F tok w) v toks"

text \<open>Every rule token of the list passes, each on the value as the class names before
  it have left it.\<close>

definition allRulesPass :: "validation \<Rightarrow> form \<Rightarrow> string list \<Rightarrow> string \<Rightarrow> bool" where
  "allRulesPass V F toks v =
     list_all
       (\<lambda>i. ruleToken V (toks ! i) \<longrightarrow>
             ruleVerdict V F (toks ! i) (valueAfter V F (take i toks) v) = Inr True)
       [0..<length toks]"

section \<open>Notions for the statements about isValid\<close>

text \<open>The field name that the loop of \<open>isValid\<close> derives for the element at a position.\<close>

definition fieldOf :: "validation \<Rightarrow> element list \<Rightarrow> nat \<Rightarrow> string" where
  "fieldOf V N i = getFieldName V (nodeId (N ! i)) (Some (nodeClass (N ! i)))"

text \<open>The elements without their display: what the program reads of them.\<close>

definition markup :: "element list \<Rightarrow> element list" where
  "markup N = map (\<lambda>e. e\<lparr> nodeDisplay := [] \<rparr>) N"

text \<open>The page that \<open>isValid\<close> hands to \<open>focus\<close> when the form is not valid: the
  elements as the loop has left them, and the new address when \<open>jump\<close> is set.\<close>

definition afterLoop :: "validation \<Rightarrow> loopVars \<Rightarrow> element list \<Rightarrow> page \<Rightarrow> page" where
  "afterLoop V vars N P =
     (if jump V
      then P\<lparr> nodes := N,
              location := (if length (anchor V) \<noteq> 0 then anchor V
                           else ''#'' @ firstErrorId vars) \<rparr>
      else P\<lparr> nodes := N \<rparr>)"

text \<open>A text field \<open>serial\<close> with two error messages that share the multi-class marker,
  holding a value that passes both, and the same form with the field left empty.\<close>

definition serialField :: "string \<Rightarrow> control" where
  "serialField v = \<lparr> ctype = ''text'', cvalue = v, disabled = False, readonly = False,
                     checked = False, options = [], selectedIndex = - 1 \<rparr>"

definition serialPage :: "string \<Rightarrow> page" where
  "serialPage v =
     \<lparr> nodes =
         [\<lparr> nodeTag = ''ins'', nodeId = ''serial-0-err'', nodeClass = ''v-error v-m'',
            nodeDisplay = ''none'' \<rparr>,
          \<lparr> nodeTag = ''ins'', nodeId = ''serial-1-err'', nodeClass = ''v-error v-m v-alphanum'',
            nodeDisplay = ''none'' \<rparr>],
       elements = [''serial'' \<mapsto> Single (serialField v)],
       location = [], focused = None \<rparr>"

text \<open>A text field \<open>name\<close> with one error message, left empty.\<close>

definition namePage :: page where
  "namePage =
     \<lparr> nodes =
         [\<lparr> nodeTag = ''label'', nodeId = ''name-label'', nodeClass = ''caption'',
            nodeDisplay = ''inline'' \<rparr>,
          \<lparr> nodeTag = ''ins'', nodeId = ''name-err'', nodeClass = ''v-error'',
            nodeDisplay = ''none'' \<rparr>],
       elements = [''name'' \<mapsto> Single (serialField [])],
       location = [], focused = None \<rparr>"

section \<open>The matcher decides the language\<close>

lemma nil_in_cat: "[] \<in> cat A B \<longleftrightarrow> [] \<in> A \<and> [] \<in> B"
  by (auto simp: cat_def)

lemma nullable_lang: "nullable r \<longleftrightarrow> [] \<in> lang r"
  by (induction r) (auto simp: nil_in_cat intro: iter.iter_nil)

lemma cons_in_cat:
  "c # w \<in> cat A B \<longleftrightarrow>
     (\<exists>u v. w = u @ v \<and> c # u \<in> A \<and> v \<in> B) \<or> ([] \<in> A \<and> c # w \<in> B)"
proof
  assume "c # w \<in> cat A B"
  then obtain u v where uv: "c # w = u @ v" "u \<in> A" "v \<in> B"
    by (auto simp: cat_def)
  show "(\<exists>u v. w = u @ v \<and> c # u \<in> A \<and> v \<in> B) \<or> ([] \<in> A \<and> c # w \<in> B)"
  proof (cases u)
    case Nil
    with uv show ?thesis by simp
  next
    case (Cons d u')
    with uv have "w = u' @ v" "c # u' \<in> A" by auto
    with uv show ?thesis by blast
  qed
next
  assume "(\<exists>u v. w = u @ v \<and> c # u \<in> A \<and> v \<in> B) \<or> ([] \<in> A \<and> c # w \<in> B)"
  then show "c # w \<in> cat A B"
  proof
    assume "\<exists>u v. w = u @ v \<and> c # u \<in> A \<and> v \<in> B"
    then obtain u v where "w = u @ v" "c # u \<in> A" "v \<in> B" by blast
    then have "c # w = (c # u) @ v \<and> c # u \<in> A \<and> v \<in> B" by simp
    then show ?thesis unfolding cat_def by blast
  next
    assume "[] \<in> A \<and> c # w \<in> B"
    then have "c # w = [] @ (c # w) \<and> [] \<in> A \<and> c # w \<in> B" by simp
    then show ?thesis unfolding cat_def by blast
  qed
qed

lemma iter_cons_split:
  "x \<in> iter A \<Longrightarrow> x = c # w \<Longrightarrow> \<exists>u v. w = u @ v \<and> c # u \<in> A \<and> v \<in> iter A"
proof (induction arbitrary: w rule: iter.induct)
  case iter_nil
  then show ?case by simp
next
  case (iter_more u v)
  show ?case
  proof (cases u)
    case Nil
    with iter_more show ?thesis by simp
  next
    case (Cons d u')
    with iter_more.prems have "w = u' @ v" "d = c" by auto
    with Cons iter_more.hyps show ?thesis by blast
  qed
qed

lemma cons_in_iter:
  "c # w \<in> iter A \<longleftrightarrow> (\<exists>u v. w = u @ v \<and> c # u \<in> A \<and> v \<in> iter A)"
proof
  assume "c # w \<in> iter A"
  then show "\<exists>u v. w = u @ v \<and> c # u \<in> A \<and> v \<in> iter A"
    by (rule iter_cons_split) simp
next
  assume "\<exists>u v. w = u @ v \<and> c # u \<in> A \<and> v \<in> iter A"
  then obtain u v where "w = u @ v" "c # u \<in> A" "v \<in> iter A" by blast
  then show "c # w \<in> iter A"
    using iter.iter_more [of "c # u" A v] by simp
qed

lemma langs_simps [simp]:
  "langs [] = {}" "langs (r # rs) = lang r \<union> langs rs" "langs (rs @ ss) = langs rs \<union> langs ss"
  by (auto simp: langs_def)

lemma langs_map_Seq: "langs (map (\<lambda>r'. Seq r' s) rs) = cat (langs rs) (lang s)"
  by (induction rs) (auto simp: cat_def)

lemma cat_quotient:
  "cat {w. c # w \<in> A} B = {w. \<exists>u v. w = u @ v \<and> c # u \<in> A \<and> v \<in> B}"
  by (auto simp: cat_def)

lemma after_lang: "langs (after c r) = {w. c # w \<in> lang r}"
proof (induction r)
  case (Seq r s)
  have "langs (after c (Seq r s)) =
      cat {w. c # w \<in> lang r} (lang s) \<union> (if nullable r then {w. c # w \<in> lang s} else {})"
    using Seq by (simp add: langs_map_Seq)
  also have "\<dots> = {w. c # w \<in> cat (lang r) (lang s)}"
    unfolding cat_quotient by (auto simp: cons_in_cat nullable_lang)
  finally show ?case by simp
next
  case (Many r)
  have "langs (after c (Many r)) = cat {w. c # w \<in> lang r} (iter (lang r))"
    using Many by (simp add: langs_map_Seq)
  also have "\<dots> = {w. c # w \<in> iter (lang r)}"
    unfolding cat_quotient by (auto simp: cons_in_iter)
  finally show ?case by simp
qed auto

lemma step_lang: "langs (step rs c) = {w. c # w \<in> langs rs}"
proof -
  have "langs (concat (map (after c) rs)) = {w. c # w \<in> langs rs}"
    by (induction rs) (auto simp: after_lang)
  then show ?thesis by (simp add: step_def langs_def)
qed

lemma foldl_step_lang: "langs (foldl step rs s) = {w. s @ w \<in> langs rs}"
  by (induction s arbitrary: rs) (simp_all add: step_lang)

lemma test_lang: "test r s \<longleftrightarrow> s \<in> lang r"
proof -
  have "test r s \<longleftrightarrow> [] \<in> langs (foldl step [r] s)"
    by (auto simp: test_def list_ex_iff nullable_lang langs_def)
  then show ?thesis by (simp add: foldl_step_lang)
qed

section \<open>Facts about the string operations\<close>

lemma startsAt_single [simp]: "startsAt [c] (d # t) \<longleftrightarrow> d = c"
  by (auto simp: startsAt_def)

lemma startsAt_append [simp]: "startsAt p (p @ t)"
  by (simp add: startsAt_def)

lemma lastIndexOfFrom_absent:
  "c \<notin> set s \<Longrightarrow> lastIndexOfFrom i found s [c] = found"
  by (induction s arbitrary: i found) auto

lemma lastIndexOfFrom_last:
  "c \<notin> set post \<Longrightarrow> lastIndexOfFrom i found (pre @ c # post) [c] = int (i + length pre)"
  by (induction pre arbitrary: i found) (auto simp: lastIndexOfFrom_absent)

lemma lastIndexOf_absent: "c \<notin> set s \<Longrightarrow> lastIndexOf s [c] = - 1"
  by (simp add: lastIndexOf_def lastIndexOfFrom_absent)

lemma lastIndexOf_last:
  "c \<notin> set post \<Longrightarrow> lastIndexOf (pre @ c # post) [c] = int (length pre)"
  by (simp add: lastIndexOf_def lastIndexOfFrom_last)

lemma indexOfFrom_absent: "c \<notin> set s \<Longrightarrow> indexOfFrom i s [c] = - 1"
  by (induction s arbitrary: i) auto

lemma indexOfFrom_present: "c \<in> set s \<Longrightarrow> int i \<le> indexOfFrom i s [c]"
proof (induction s arbitrary: i)
  case Nil
  then show ?case by simp
next
  case (Cons d s)
  show ?case
  proof (cases "d = c")
    case True
    then show ?thesis by simp
  next
    case False
    with Cons.prems have "c \<in> set s" by simp
    from Cons.IH [OF this, of "Suc i"] False show ?thesis by simp
  qed
qed

lemma indexOf_char: "indexOf s [c] = - 1 \<longleftrightarrow> c \<notin> set s"
proof
  assume "indexOf s [c] = - 1"
  then show "c \<notin> set s"
    using indexOfFrom_present [of c s 0] by (auto simp: indexOf_def)
next
  assume "c \<notin> set s"
  then show "indexOf s [c] = - 1"
    by (simp add: indexOf_def indexOfFrom_absent)
qed

lemma indexOf_prefixed: "0 \<le> indexOf (p @ t) p"
proof (cases "p @ t")
  case Nil
  then show ?thesis by (simp add: indexOf_def)
next
  case (Cons a list)
  have "startsAt p (p @ t)" by simp
  with Cons show ?thesis by (simp add: indexOf_def)
qed

lemma substring_prefix [simp]: "substring (a @ b) 0 (int (length a)) = a"
  by (simp add: substring_def clampIndex_def)

lemma substring_drop_suffix [simp]:
  "substring (a @ b) 0 (int (length (a @ b)) - int (length b)) = a"
  by (simp add: substring_def clampIndex_def)

lemma substringFrom_suffix [simp]: "substringFrom (a @ b) (int (length a)) = b"
  by (simp add: substringFrom_def clampIndex_def)

lemma substring_to_minus_one [simp]: "substring s 0 (- 1) = []"
  by (simp add: substring_def clampIndex_def)

lemma jsSplit_nonempty [simp]: "jsSplit sep s \<noteq> []"
  by (induction s) (auto simp: jsSplit_def)

lemma jsSplit_Nil [simp]: "jsSplit sep [] = [[]]"
  by (simp add: jsSplit_def)

lemma jsSplit_Cons:
  "jsSplit sep (c # s) =
     (if c = sep then [] # jsSplit sep s else (c # hd (jsSplit sep s)) # tl (jsSplit sep s))"
  by (simp add: jsSplit_def)

lemma jsSplit_no_sep: "sep \<notin> set s \<Longrightarrow> jsSplit sep s = [s]"
  by (induction s) (auto simp: jsSplit_Cons)

lemma jsSplit_pieces: "t \<in> set (jsSplit sep s) \<Longrightarrow> sep \<notin> set t"
proof (induction s arbitrary: t)
  case Nil
  then show ?case by simp
next
  case (Cons c s)
  obtain h r where hr: "jsSplit sep s = h # r"
    by (cases "jsSplit sep s") auto
  with Cons show ?case
    by (auto simp: jsSplit_Cons split: if_splits)
qed

lemma jsSplit_join: "joinWith sep (jsSplit sep s) = s"
proof (induction s)
  case Nil
  then show ?case by simp
next
  case (Cons c s)
  obtain h r where hr: "jsSplit sep s = h # r"
    by (cases "jsSplit sep s") auto
  with Cons show ?case
    by (cases r) (auto simp: jsSplit_Cons)
qed

section \<open>The length rule\<close>

text \<open>
  C5. With both bounds given, the length rule is to hold exactly when \<open>min \<le> max\<close> and the
  length of the value lies between \<open>min\<close> and \<open>max\<close>, both included. The handler passes the
  bounds as the strings of the class name, and the program compares \<open>min\<close> with \<open>max\<close> as
  they come: two strings are compared code unit by code unit. With \<open>len-5-10\<close> the test
  \<open>min <= max\<close> compares \<open>5\<close> with \<open>10\<close> as strings and fails, so the rule rejects every value,
  the value of six characters among them, although 5 is at most 6 and 6 at most 10.
\<close>

theorem isValidLength_string_bounds:
  "splitClassName Validation ''v-len-5-10'' = \<lparr> methodName = ''len'', args = [''5'', ''10''] \<rparr> \<and>
   lenArgs [''5'', ''10''] = [JStr ''5'', JStr ''10''] \<and>
   (\<forall>v. \<not> isValidLength v (JStr ''5'') (JStr ''10'')) \<and>
   validateHandler Validation Map.empty ''v-len-5-10'' ''abcdef'' = Inr False"
proof -
  have "strLess ''10'' ''5''" by code_simp
  then have "\<forall>v. \<not> isValidLength v (JStr ''5'') (JStr ''10'')"
    by (simp add: isValidLength_def jsLe_def)
  moreover have "splitClassName Validation ''v-len-5-10'' =
      \<lparr> methodName = ''len'', args = [''5'', ''10''] \<rparr>"
    and "lenArgs [''5'', ''10''] = [JStr ''5'', JStr ''10'']"
    and "validateHandler Validation Map.empty ''v-len-5-10'' ''abcdef'' = Inr False"
    by code_simp+
  ultimately show ?thesis by (intro conjI)
qed

text \<open>The comparison of the two bounds goes right when the strings happen to stand in
  the order of their numbers (\<open>len-0-10\<close>, the example of the source), and the lengths are
  compared with each bound as numbers. With bounds in the wrong order, and with one bound
  only, the rule does what is described.\<close>

lemma isValidLength_handler_examples:
  "validateHandler Validation Map.empty ''v-len-0-10'' ''abcdef'' = Inr True"
  "validateHandler Validation Map.empty ''v-len-2-10'' ''abcdef'' = Inr False"
  "validateHandler Validation Map.empty ''v-len-2-0'' ''abc'' = Inr False"
  "validateHandler Validation Map.empty ''v-len-10-2'' ''abc'' = Inr False"
  "validateHandler Validation Map.empty ''v-len-3'' ''abc'' = Inr True"
  "validateHandler Validation Map.empty ''v-len-4'' ''abc'' = Inr False"
  by code_simp+

text \<open>On bounds that are numbers, as the documentation of the function has them and as no
  call of the program passes them, the rule is the one described, a \<open>max\<close> of 0 counting as
  absent.\<close>

lemma isValidLength_numeric:
  "(\<not> truthy mx \<longrightarrow> isValidLength v (JNum mn) mx = (mn \<le> int (length v))) \<and>
   (b \<noteq> 0 \<longrightarrow>
      isValidLength v (JNum mn) (JNum b) = (mn \<le> b \<and> mn \<le> int (length v) \<and> int (length v) \<le> b)) \<and>
   (b \<noteq> 0 \<and> b < mn \<longrightarrow> \<not> isValidLength v (JNum mn) (JNum b))"
  by (auto simp: isValidLength_def jsGe_def jsLe_def)

lemma isValidLength_numeric_examples:
  "isValidLength ''abc'' (JNum 2) JNull \<and> isValidLength ''abc'' (JNum 2) JUndefined \<and>
   isValidLength ''abc'' (JNum 2) (JNum 5) \<and> \<not> isValidLength ''a'' (JNum 2) (JNum 5) \<and>
   \<not> isValidLength ''abcdef'' (JNum 2) (JNum 5) \<and> \<not> isValidLength ''abc'' (JNum 5) (JNum 2)"
  using isValidLength_numeric [of JNull "''abc''" 2 5]
    isValidLength_numeric [of JUndefined "''abc''" 2 5]
    isValidLength_numeric [of JNull "''a''" 2 5]
    isValidLength_numeric [of JNull "''abcdef''" 2 5]
    isValidLength_numeric [of JNull "''abc''" 5 2]
  by simp

section \<open>A radio button on its own\<close>

text \<open>
  C10. A field whose control is of type \<open>radio\<close> and is a single control, not a collection,
  has no \<open>length\<close>; the loop of \<open>checkRadio\<close> does not run and the check answers false,
  whether or not the radio button is checked.
\<close>

theorem checkRadio_single_control:
  assumes "formGet F fieldName = Some (Single c)" and "ctype c = ''radio''"
  shows "checkRadio F fieldName = Inr False \<and> check V F fieldName cls = Inr False"
proof -
  have loop: "checkRadioLoop (Single c) 0 = Inr False"
    by (simp add: jsLt_def)
  have radio: "checkRadio F fieldName = Inr False"
    using assms(1) loop by (simp add: checkRadio_def)
  have "fieldType F fieldName = Inr ''radio''"
    using assms by (simp add: fieldType_def)
  then have "check V F fieldName cls = checkRadio F fieldName"
    by (simp add: check_def)
  with radio show ?thesis by simp
qed

theorem checkRadio_single_control_witness:
  "formGet [''agree'' \<mapsto> Single loneRadio] ''agree'' = Some (Single loneRadio) \<and>
   ctype loneRadio = ''radio'' \<and> checked loneRadio \<and>
   checkRadio [''agree'' \<mapsto> Single loneRadio] ''agree'' = Inr False \<and>
   check Validation [''agree'' \<mapsto> Single loneRadio] ''agree'' ''v-error'' = Inr False"
proof -
  have g: "formGet [''agree'' \<mapsto> Single loneRadio] ''agree'' = Some (Single loneRadio)"
    by (simp add: formGet_def)
  have t: "ctype loneRadio = ''radio''" "checked loneRadio"
    by (simp_all add: loneRadio_def)
  show ?thesis
    using g t checkRadio_single_control [OF g t(1), of Validation "''v-error''"] by simp
qed

section \<open>Field names\<close>

lemma getFieldNameLoop_eq:
  "getFieldNameLoop multi classArr field =
     (if multi \<in> set classArr then substring field 0 (lastIndexOf field ''-'') else field)"
  by (induction classArr) auto

text \<open>
  C6. The field name of an error element is computed from its identifier by taking the
  suffix off first and then, only when the prefixed multi-class marker is one of the
  space-separated classes of the element, cutting everything from the last hyphen on.
  With the marker absent the identifier \<open>base + suffix\<close> gives \<open>base\<close>; with the marker
  present the identifier \<open>pre-post + suffix\<close>, where \<open>post\<close> has no hyphen, gives \<open>pre\<close>. The
  order shows in the second case: the suffix of the defaults holds a hyphen itself.
\<close>

theorem getFieldName_order:
  "(prefix V @ multiClass V \<notin> set (jsSplit CHR '' '' cls) \<longrightarrow>
      getFieldName V (base @ suffix V) (Some cls) = base) \<and>
   (prefix V @ multiClass V \<in> set (jsSplit CHR '' '' cls) \<and> CHR ''-'' \<notin> set post \<longrightarrow>
      getFieldName V (pre @ ''-'' @ post @ suffix V) (Some cls) = pre)"
proof (intro conjI impI)
  assume "prefix V @ multiClass V \<notin> set (jsSplit CHR '' '' cls)"
  then show "getFieldName V (base @ suffix V) (Some cls) = base"
    using substring_drop_suffix [of base "suffix V"]
    by (simp add: getFieldName_def getFieldNameLoop_eq)
next
  assume a: "prefix V @ multiClass V \<in> set (jsSplit CHR '' '' cls) \<and> CHR ''-'' \<notin> set post"
  have "substring (pre @ ''-'' @ post @ suffix V) 0
          (int (length (pre @ ''-'' @ post @ suffix V)) - int (length (suffix V)))
        = pre @ ''-'' @ post"
    using substring_drop_suffix [of "pre @ ''-'' @ post" "suffix V"] by simp
  moreover have "lastIndexOf (pre @ ''-'' @ post) ''-'' = int (length pre)"
    using a lastIndexOf_last [of "CHR ''-''" post pre] by simp
  ultimately show "getFieldName V (pre @ ''-'' @ post @ suffix V) (Some cls) = pre"
    using a substring_prefix [of pre "''-'' @ post"]
    by (simp add: getFieldName_def getFieldNameLoop_eq del: substring_prefix)
qed

theorem getFieldName_order_witness:
  "getFieldName Validation ''serial-0-err'' (Some ''v-error v-m'') = ''serial'' \<and>
   getFieldName Validation ''serial-1-err'' (Some ''v-error v-m'') = ''serial'' \<and>
   getFieldName Validation ''serial-2-err'' (Some ''v-error v-m'') = ''serial'' \<and>
   getFieldName Validation ''serial-err'' (Some ''v-error'') = ''serial''"
proof -
  have m: "prefix Validation @ multiClass Validation \<in> set (jsSplit CHR '' '' ''v-error v-m'')"
    by (simp add: Validation_def jsSplit_def)
  have n: "prefix Validation @ multiClass Validation \<notin> set (jsSplit CHR '' '' ''v-error'')"
    by (simp add: Validation_def jsSplit_def)
  have s: "suffix Validation = ''-err''"
    by (simp add: Validation_def)
  show ?thesis
    using m n
      getFieldName_order [of Validation "''v-error v-m''" "[]" "''0''" "''serial''"]
      getFieldName_order [of Validation "''v-error v-m''" "[]" "''1''" "''serial''"]
      getFieldName_order [of Validation "''v-error v-m''" "[]" "''2''" "''serial''"]
      getFieldName_order [of Validation "''v-error''" "''serial''" "[]" "[]"]
    by (simp add: s)
qed

text \<open>With the marker present and no hyphen in what is left, \<open>lastIndexOf\<close> answers \<open>-1\<close>
  and the field name is empty.\<close>

lemma getFieldName_no_hyphen:
  "prefix V @ multiClass V \<in> set (jsSplit CHR '' '' cls) \<Longrightarrow> CHR ''-'' \<notin> set base \<Longrightarrow>
     getFieldName V (base @ suffix V) (Some cls) = []"
  using substring_drop_suffix [of base "suffix V"]
  by (simp add: getFieldName_def getFieldNameLoop_eq lastIndexOf_absent)

section \<open>Parsing a class name\<close>

text \<open>On a class name that begins with the prefix the parse is the one described: the
  rest is split at the hyphens, the empty pieces are dropped, the first piece is the
  method and the others are its arguments.\<close>

lemma splitClassName_prefixed:
  "splitClassName V (prefix V @ rest) =
     (case filter (\<lambda>a. a \<noteq> []) (jsSplit CHR ''-'' rest) of
        [] \<Rightarrow> \<lparr> methodName = [], args = [] \<rparr>
      | m # as \<Rightarrow> \<lparr> methodName = m, args = as \<rparr>)"
  by (simp add: splitClassName_def indexOf_prefixed split: list.splits)

lemma indexOfFrom_no_occurrence:
  "\<not> (\<exists>u w. s = u @ p @ w) \<Longrightarrow> indexOfFrom i s p = - 1"
proof (induction s arbitrary: i)
  case Nil
  then have "p \<noteq> []" by auto
  then show ?case by simp
next
  case (Cons c t)
  have "\<not> startsAt p (c # t)"
  proof
    assume "startsAt p (c # t)"
    then have "c # t = [] @ p @ drop (length p) (c # t)"
      using append_take_drop_id [of "length p" "c # t"] by (simp add: startsAt_def)
    with Cons.prems show False by blast
  qed
  moreover have "\<not> (\<exists>u w. t = u @ p @ w)"
  proof
    assume "\<exists>u w. t = u @ p @ w"
    then obtain u w where "t = u @ p @ w" by blast
    then have "c # t = (c # u) @ p @ w" by simp
    with Cons.prems show False by blast
  qed
  ultimately show ?case
    using Cons.IH [of "Suc i"] by simp
qed

lemma splitClassName_specRule:
  "splitClassName V (prefix V @ rest) = specRule rest"
  unfolding specRule_def by (rule splitClassName_prefixed)

lemma splitClassName_no_prefix:
  assumes "\<not> (\<exists>u w. tok = u @ prefix V @ w)"
  shows "splitClassName V tok = specRule tok"
proof -
  have "indexOf tok (prefix V) = - 1"
    using assms by (simp add: indexOf_def indexOfFrom_no_occurrence)
  then show ?thesis
    by (simp add: splitClassName_def specRule_def split: list.splits)
qed

text \<open>
  C3 (as amended). The handler parses the class names that begin with the prefix, and no
  others. Of such a class name the prefix is removed; a class name in which the prefix
  does not occur is used as it stands. What is left is split at the hyphens and the empty
  pieces are dropped: no piece gives the empty method, one piece gives that piece as the
  method with no arguments, more pieces give the first as the method and the others, in
  order, as the arguments. The empty method is not a no-op: the switch has no case for it,
  and unless it is the error class, the multi-class marker or a key of the table of
  expressions, its evaluation raises.
\<close>

theorem splitClassName_rule_token:
  "(ruleToken V tok \<longrightarrow> splitClassName V tok = specRule (drop (length (prefix V)) tok)) \<and>
   (\<not> (\<exists>u w. tok = u @ prefix V @ w) \<longrightarrow> splitClassName V tok = specRule tok) \<and>
   (methodName parts = [] \<and> errorClass V \<noteq> [] \<and> multiClass V \<noteq> [] \<and>
    validationExp V [] = None \<longrightarrow>
      fst (switchMethod V F parts v) = Inl TypeError)"
proof (intro conjI impI)
  assume "ruleToken V tok"
  then have "tok = prefix V @ drop (length (prefix V)) tok"
    using append_take_drop_id [of "length (prefix V)" tok] by (simp add: ruleToken_def)
  then show "splitClassName V tok = specRule (drop (length (prefix V)) tok)"
    using splitClassName_specRule [of V "drop (length (prefix V)) tok"] by simp
next
  assume "\<not> (\<exists>u w. tok = u @ prefix V @ w)"
  then show "splitClassName V tok = specRule tok"
    by (rule splitClassName_no_prefix)
next
  assume a: "methodName parts = [] \<and> errorClass V \<noteq> [] \<and> multiClass V \<noteq> [] \<and>
    validationExp V [] = None"
  then have "errorClass V \<noteq> methodName parts" "multiClass V \<noteq> methodName parts"
    by auto
  with a show "fst (switchMethod V F parts v) = Inl TypeError"
    by (auto simp: switchMethod_def isValidRegExp_def)
qed

theorem splitClassName_rule_token_witness:
  "splitClassName Validation ''v-len-0-10'' = \<lparr> methodName = ''len'', args = [''0'', ''10''] \<rparr> \<and>
   splitClassName Validation ''v-email'' = \<lparr> methodName = ''email'', args = [] \<rparr> \<and>
   splitClassName Validation ''v--len--3-'' = \<lparr> methodName = ''len'', args = [''3''] \<rparr> \<and>
   splitClassName Validation ''required'' = \<lparr> methodName = ''required'', args = [] \<rparr> \<and>
   fst (switchMethod Validation Map.empty (splitClassName Validation ''v-'') ''abc'') = Inl TypeError"
proof -
  have r: "ruleToken Validation ''v-len-0-10''" "ruleToken Validation ''v-email''"
    "ruleToken Validation ''v--len--3-''" "ruleToken Validation ''v-''"
    by code_simp+
  have p: "length (prefix Validation) = 2"
    by (simp add: Validation_def)
  have s: "specRule ''len-0-10'' = \<lparr> methodName = ''len'', args = [''0'', ''10''] \<rparr>"
    "specRule ''email'' = \<lparr> methodName = ''email'', args = [] \<rparr>"
    "specRule ''-len--3-'' = \<lparr> methodName = ''len'', args = [''3''] \<rparr>"
    "specRule [] = \<lparr> methodName = [], args = [] \<rparr>"
    "specRule ''required'' = \<lparr> methodName = ''required'', args = [] \<rparr>"
    by code_simp+
  have n: "\<not> (\<exists>u w. ''required'' = u @ prefix Validation @ w)"
  proof
    assume "\<exists>u w. ''required'' = u @ prefix Validation @ w"
    then obtain u w where "''required'' = u @ ''v-'' @ w"
      by (auto simp: Validation_def)
    then have "set ''required'' = set (u @ ''v-'' @ w)" by (rule arg_cong)
    then have "CHR ''v'' \<in> set ''required''" by simp
    then show False by simp
  qed
  have d: "errorClass Validation \<noteq> []" "multiClass Validation \<noteq> []"
    "validationExp Validation [] = None"
    by (simp_all add: Validation_def)
  have a: "splitClassName Validation ''v-len-0-10'' = \<lparr> methodName = ''len'', args = [''0'', ''10''] \<rparr>"
    using splitClassName_rule_token [of Validation "''v-len-0-10''"] r(1) by (simp add: p s)
  have b: "splitClassName Validation ''v-email'' = \<lparr> methodName = ''email'', args = [] \<rparr>"
    using splitClassName_rule_token [of Validation "''v-email''"] r(2) by (simp add: p s)
  have c: "splitClassName Validation ''v--len--3-'' = \<lparr> methodName = ''len'', args = [''3''] \<rparr>"
    using splitClassName_rule_token [of Validation "''v--len--3-''"] r(3) by (simp add: p s)
  have e: "splitClassName Validation ''required'' = \<lparr> methodName = ''required'', args = [] \<rparr>"
    using splitClassName_rule_token [of Validation "''required''"] n by (simp add: s)
  have z: "splitClassName Validation ''v-'' = \<lparr> methodName = [], args = [] \<rparr>"
    using splitClassName_rule_token [of Validation "''v-''"] r(4) by (simp add: p s)
  have f: "fst (switchMethod Validation Map.empty (splitClassName Validation ''v-'') ''abc'')
      = Inl TypeError"
    using splitClassName_rule_token [of Validation "[]" "splitClassName Validation ''v-''"
        Map.empty "''abc''"] d z by simp
  from a b c e f show ?thesis by (intro conjI)
qed

text \<open>The claim as stated fails on the empty method: the class name \<open>v-\<close> begins with the
  prefix and parses to the empty method, and its evaluation, far from leaving the field
  valid, raises.\<close>

theorem empty_method_not_noop:
  "ruleToken Validation ''v-'' \<and>
   methodName (splitClassName Validation ''v-'') = [] \<and>
   validateHandler Validation Map.empty ''v-'' ''abc'' = Inl TypeError \<and>
   check Validation [''name'' \<mapsto> Single (serialField ''abc'')] ''name'' ''v-'' = Inl TypeError"
  by code_simp

text \<open>Called by itself on a class name that holds the prefix further in, which the handler
  never does, the parse drops as many leading characters as the prefix has.\<close>

lemma splitClassName_prefix_inside:
  "substring ''xv-len'' 0 (int (length (prefix Validation))) \<noteq> prefix Validation \<and>
   splitClassName Validation ''xv-len'' = \<lparr> methodName = ''len'', args = [] \<rparr> \<and>
   filter (\<lambda>a. length a \<noteq> 0) (jsSplit CHR ''-'' ''xv-len'') = [''xv'', ''len'']"
  by (simp add: Validation_def splitClassName_def substring_def clampIndex_def indexOf_def
      startsAt_def substringFrom_def jsSplit_def)

section \<open>The file rule\<close>

lemma fileTypeLoop_set: "fileTypeLoop exts v \<longleftrightarrow> v \<in> set exts"
  by (induction exts) auto

lemma charAt_last: "charAt v (int (length v) - 1) = [c] \<longleftrightarrow> v \<noteq> [] \<and> last v = c"
  by (cases v rule: rev_cases) (auto simp: charAt_def nth_append)

lemma substring_take: "substring v 0 (int (length v) - 2) = take (length v - 2) v"
proof -
  have "nat (int (length v) - 2) = length v - 2" by arith
  then show ?thesis by (auto simp: substring_def clampIndex_def)
qed

lemma getFileExtension_dot:
  "CHR ''.'' \<notin> set e \<Longrightarrow> getFileExtension (stem @ ''.'' @ e) = e"
proof -
  assume "CHR ''.'' \<notin> set e"
  then have "lastIndexOf (stem @ ''.'' @ e) ''.'' = int (length stem)"
    using lastIndexOf_last [of "CHR ''.''" e stem] by simp
  moreover have "nat (int (length stem) + 1) = Suc (length stem)" by arith
  ultimately show ?thesis
    by (simp add: getFileExtension_def substringFrom_def clampIndex_def)
qed

lemma getFileExtension_no_dot: "CHR ''.'' \<notin> set e \<Longrightarrow> getFileExtension e = e"
  by (simp add: getFileExtension_def lastIndexOf_absent substringFrom_def clampIndex_def)

lemma image_group:
  "fileTypes Validation ''image'' =
     Some [''bmp'', ''gif'', ''jpg'', ''jpeg'', ''png'', ''tif'', ''raw'']"
  by (simp add: Validation_def)

lemma lower_JPG:
  "toLowerCase ''JPG'' = ''jpg''" "toLowerCase ''txt'' = ''txt''" "toLowerCase ''jpg'' = ''jpg''"
  by code_simp+

text \<open>
  C7. The file rule (method \<open>file\<close> or \<open>upload\<close>) first takes the quote artifact off the
  value: when the last character of the value is a double quote, the last two characters
  go (the quote and the escape character before it). It then takes what follows the last
  full stop (the whole value when there is none), puts it in lower case and answers whether
  it is one of the extensions of the named group; the extensions of the table are compared
  as they stand. The group must be a key of the table.
\<close>

theorem file_rule:
  assumes "fileTypes V g = Some exts"
    and "m = ''file'' \<or> m = ''upload''"
    and "w = (if v \<noteq> [] \<and> last v = CHR 0x22 then take (length v - 2) v else v)"
    and "w = stem @ ''.'' @ e \<or> w = e"
    and "CHR ''.'' \<notin> set e"
  shows "switchMethod V F \<lparr> methodName = m, args = g # rest \<rparr> v =
           (Inr (toLowerCase e \<in> set exts), w)"
proof -
  have ext: "getFileExtension w = e"
    using assms(4,5) getFileExtension_dot getFileExtension_no_dot by auto
  have strip: "(if charAt v (int (length v) - 1) = quote
                then substring v 0 (int (length v) - 2) else v) = w"
    using assms(3) by (simp add: quote_def charAt_last substring_take)
  have "m \<noteq> ''email''"
    using assms(2) by auto
  then show ?thesis
    using assms(1,2) ext strip
    by (simp add: switchMethod_def isValidFileExtension_def argAt_def toKey_def fileTypeLoop_set)
qed

theorem file_rule_witness:
  "switchMethod Validation Map.empty \<lparr> methodName = ''file'', args = [''image''] \<rparr> ''photo.JPG''
     = (Inr True, ''photo.JPG'') \<and>
   switchMethod Validation Map.empty \<lparr> methodName = ''upload'', args = [''image''] \<rparr> ''doc.txt''
     = (Inr False, ''doc.txt'') \<and>
   switchMethod Validation Map.empty \<lparr> methodName = ''file'', args = [''image''] \<rparr>
       (''photo.jpg'' @ [CHR 0x5C] @ quote)
     = (Inr True, ''photo.jpg'')"
proof -
  have a: "switchMethod Validation Map.empty \<lparr> methodName = ''file'', args = [''image''] \<rparr> ''photo.JPG''
     = (Inr True, ''photo.JPG'')"
    using file_rule [OF image_group, of "''file''" "''photo.JPG''" "''photo.JPG''" "''photo''" "''JPG''"
        Map.empty "[]"]
    by (simp add: lower_JPG)
  have b: "switchMethod Validation Map.empty \<lparr> methodName = ''upload'', args = [''image''] \<rparr> ''doc.txt''
     = (Inr False, ''doc.txt'')"
    using file_rule [OF image_group, of "''upload''" "''doc.txt''" "''doc.txt''" "''doc''" "''txt''"
        Map.empty "[]"]
    by (simp add: lower_JPG)
  have h: "''photo.jpg'' =
      (if ''photo.jpg'' @ [CHR 0x5C] @ quote \<noteq> [] \<and> last (''photo.jpg'' @ [CHR 0x5C] @ quote) = CHR 0x22
       then take (length (''photo.jpg'' @ [CHR 0x5C] @ quote) - 2) (''photo.jpg'' @ [CHR 0x5C] @ quote)
       else ''photo.jpg'' @ [CHR 0x5C] @ quote)"
    by (simp add: quote_def)
  have c: "switchMethod Validation Map.empty \<lparr> methodName = ''file'', args = [''image''] \<rparr>
       (''photo.jpg'' @ [CHR 0x5C] @ quote) = (Inr True, ''photo.jpg'')"
    using file_rule [OF image_group _ h, of "''file''" "''photo''" "''jpg''" Map.empty "[]"]
    by (simp add: lower_JPG)
  from a b c show ?thesis by simp
qed

lemma handler_file_examples:
  "validateHandler Validation Map.empty ''v-file-image'' ''photo.JPG'' = Inr True"
  "validateHandler Validation Map.empty ''v-file-image'' ''doc.txt'' = Inr False"
  by code_simp+

section \<open>Unknown rule names\<close>

text \<open>
  C8. A class name that begins with the prefix and whose method is none of the built-in
  ones (\<open>email\<close>, \<open>file\<close>, \<open>upload\<close>, \<open>len\<close>, \<open>match\<close>, \<open>eq\<close>, \<open>equal\<close>, \<open>required\<close>, \<open>error\<close>, the
  error class, the multi-class marker) and is no key of the table of expressions makes the
  evaluation raise: the lookup gives \<open>undefined\<close> and the call of its \<open>test\<close> fails. The
  evaluation never answers true there.
\<close>

theorem unknown_method_raises:
  assumes "tok \<noteq> []"
    and "substring tok 0 (int (length (prefix V))) = prefix V"
    and "methodName (splitClassName V tok) \<notin>
           {''email'', ''file'', ''upload'', ''len'', ''match'', ''eq'', ''equal'',
            ''required'', ''error'', errorClass V, multiClass V}"
    and "validationExp V (methodName (splitClassName V tok)) = None"
  shows "fst (switchMethod V F (splitClassName V tok) v) = Inl TypeError \<and>
         validateLoop V F (tok # rest) v = Inl TypeError \<and>
         (CHR '' '' \<notin> set tok \<longrightarrow> validateHandler V F tok v = Inl TypeError)"
proof -
  have sw: "switchMethod V F (splitClassName V tok) v = (Inl TypeError, v)"
    using assms(3,4) by (simp add: switchMethod_def isValidRegExp_def)
  then have loop: "\<And>rest. validateLoop V F (tok # rest) v = Inl TypeError"
    using assms(1,2) by simp
  show ?thesis
    using sw loop by (simp add: validateHandler_def jsSplit_no_sep)
qed

theorem unknown_method_raises_witness:
  "fst (switchMethod Validation Map.empty (splitClassName Validation ''v-bogus'') ''abc'')
     = Inl TypeError \<and>
   validateLoop Validation Map.empty [''v-bogus'', ''v-required''] ''abc'' = Inl TypeError \<and>
   validateHandler Validation Map.empty ''v-bogus'' ''abc'' = Inl TypeError"
proof -
  have p: "substring ''v-bogus'' 0 (int (length (prefix Validation))) = prefix Validation"
    by (simp add: Validation_def substring_def clampIndex_def)
  have m: "methodName (splitClassName Validation ''v-bogus'') = ''bogus''"
    using splitClassName_prefixed [of Validation "''bogus''"]
    by (simp add: Validation_def jsSplit_def)
  have k: "methodName (splitClassName Validation ''v-bogus'') \<notin>
           {''email'', ''file'', ''upload'', ''len'', ''match'', ''eq'', ''equal'',
            ''required'', ''error'', errorClass Validation, multiClass Validation}"
    unfolding m by (simp add: Validation_def)
  have t: "validationExp Validation (methodName (splitClassName Validation ''v-bogus'')) = None"
    unfolding m by (simp add: Validation_def)
  show ?thesis
    using unknown_method_raises [OF _ p k t, of Map.empty "''abc''" "[''v-required'']"]
    by simp
qed

section \<open>Facts about the patterns\<close>

lemma catI: "u \<in> A \<Longrightarrow> v \<in> B \<Longrightarrow> u @ v \<in> cat A B"
  unfolding cat_def by blast

lemma cat_chars: "cat {[c] | c. P c} B = {c # w | c w. P c \<and> w \<in> B}"
proof (rule set_eqI)
  fix s
  show "s \<in> cat {[c] | c. P c} B \<longleftrightarrow> s \<in> {c # w | c w. P c \<and> w \<in> B}"
  proof
    assume "s \<in> cat {[c] | c. P c} B"
    then show "s \<in> {c # w | c w. P c \<and> w \<in> B}" by (auto simp: cat_def)
  next
    assume "s \<in> {c # w | c w. P c \<and> w \<in> B}"
    then obtain c w where "s = [c] @ w" "P c" "w \<in> B" by auto
    then show "s \<in> cat {[c] | c. P c} B" unfolding cat_def by blast
  qed
qed


lemma code_eq_iff: "code a = code b \<longleftrightarrow> a = b"
  by (simp add: code_def)

lemma inRanges_point: "inRanges c [(a, a)] \<longleftrightarrow> c = a"
  using code_eq_iff [of c a] by auto

lemma inRanges_points:
  "inRanges c [(a, a), (b, b)] \<longleftrightarrow> c = a \<or> c = b"
  using code_eq_iff [of c a] code_eq_iff [of c b] by auto

lemma lit_Nil: "lit [] = Empty"
  by (simp add: lit_def)

lemma lit_Cons: "lit (c # s) = Seq (Chr (OneOf [(c, c)])) (lit s)"
  by (simp add: lit_def)

lemma lang_lit [simp]: "lang (lit s) = {s}"
proof (induction s)
  case Nil
  then show ?case by (simp add: lit_Nil)
next
  case (Cons c s)
  have "lang (lit (c # s)) = cat {[d] | d. d = c} {s}"
    unfolding lit_Cons lang.simps inCset.simps inRanges_point Cons ..
  also have "\<dots> = {c # s}"
    unfolding cat_chars by simp
  finally show ?case .
qed

lemma lang_alts [simp]: "lang (alts rs) = langs rs"
  by (induction rs) (simp_all add: alts_def)

lemma langs_map_lit [simp]: "langs (map lit xs) = set xs"
  by (induction xs) simp_all

lemma lang_opt [simp]: "lang (opt r) = insert [] (lang r)"
  by (simp add: opt_def)

lemma many_chars: "list_all (\<lambda>c. inCset c k) s \<Longrightarrow> s \<in> lang (Many (Chr k))"
proof (induction s)
  case Nil
  then show ?case by (simp add: iter.iter_nil)
next
  case (Cons c s)
  then have "[c] \<in> lang (Chr k)" "s \<in> iter (lang (Chr k))" by simp_all
  then have "[c] @ s \<in> iter (lang (Chr k))" by (rule iter.iter_more)
  then show ?case by simp
qed

lemma one_char: "inCset c k \<Longrightarrow> [c] \<in> lang (Chr k)"
  by simp

lemma lang_repExactly_chars:
  "lang (repExactly n (Chr k)) = {s. length s = n \<and> list_all (\<lambda>c. inCset c k) s}"
proof (induction n)
  case 0
  then show ?case by auto
next
  case (Suc n)
  have "lang (repExactly (Suc n) (Chr k)) =
      {c # w | c w. inCset c k \<and> length w = n \<and> list_all (\<lambda>c. inCset c k) w}"
    by (simp add: Suc cat_chars)
  also have "\<dots> = {s. length s = Suc n \<and> list_all (\<lambda>c. inCset c k) s}"
    by (auto simp: length_Suc_conv)
  finally show ?case .
qed

lemma lang_repUpTo_chars:
  "lang (repUpTo n (Chr k)) = {s. length s \<le> n \<and> list_all (\<lambda>c. inCset c k) s}"
proof (induction n)
  case 0
  then show ?case by auto
next
  case (Suc n)
  have "lang (repUpTo (Suc n) (Chr k)) =
      insert [] {c # w | c w. inCset c k \<and> length w \<le> n \<and> list_all (\<lambda>c. inCset c k) w}"
    by (simp add: Suc cat_chars)
  also have "\<dots> = {s. length s \<le> Suc n \<and> list_all (\<lambda>c. inCset c k) s}"
  proof (rule set_eqI)
    fix s
    show "s \<in> insert [] {c # w | c w. inCset c k \<and> length w \<le> n \<and> list_all (\<lambda>c. inCset c k) w}
        \<longleftrightarrow> s \<in> {s. length s \<le> Suc n \<and> list_all (\<lambda>c. inCset c k) s}"
      by (cases s) auto
  qed
  finally show ?case .
qed


lemma lang_repBetween_chars:
  "lang (repBetween m n (Chr k)) =
     {s. m \<le> length s \<and> length s \<le> m + (n - m) \<and> list_all (\<lambda>c. inCset c k) s}"
proof (rule set_eqI)
  fix s
  show "s \<in> lang (repBetween m n (Chr k)) \<longleftrightarrow>
        s \<in> {s. m \<le> length s \<and> length s \<le> m + (n - m) \<and> list_all (\<lambda>c. inCset c k) s}"
  proof
    assume "s \<in> lang (repBetween m n (Chr k))"
    then obtain u v where "s = u @ v" "length u = m" "list_all (\<lambda>c. inCset c k) u"
      "length v \<le> n - m" "list_all (\<lambda>c. inCset c k) v"
      by (auto simp: repBetween_def cat_def lang_repExactly_chars lang_repUpTo_chars)
    then show "s \<in> {s. m \<le> length s \<and> length s \<le> m + (n - m) \<and> list_all (\<lambda>c. inCset c k) s}"
      by auto
  next
    assume a: "s \<in> {s. m \<le> length s \<and> length s \<le> m + (n - m) \<and> list_all (\<lambda>c. inCset c k) s}"
    then have "take m s \<in> lang (repExactly m (Chr k))"
      by (auto simp: lang_repExactly_chars list_all_iff dest: in_set_takeD)
    moreover from a have "drop m s \<in> lang (repUpTo (n - m) (Chr k))"
      by (auto simp: lang_repUpTo_chars list_all_iff dest: in_set_dropD)
    ultimately have "take m s @ drop m s \<in> lang (repBetween m n (Chr k))"
      unfolding repBetween_def lang.simps by (rule catI)
    then show "s \<in> lang (repBetween m n (Chr k))" by simp
  qed
qed

text \<open>The local part: 1 to 255 code units, none of them a line feed or a carriage return.\<close>

lemma emailLocalExp_accepts:
  "test emailLocalExp s \<longleftrightarrow>
     1 \<le> length s \<and> length s \<le> 255 \<and> CHR 0x0A \<notin> set s \<and> CHR 0x0D \<notin> set s"
proof -
  have "list_all (\<lambda>c. inCset c (NoneOf [(CHR 0x0A, CHR 0x0A), (CHR 0x0D, CHR 0x0D)])) s
      \<longleftrightarrow> CHR 0x0A \<notin> set s \<and> CHR 0x0D \<notin> set s"
    unfolding inCset.simps inRanges_points by (auto simp: list_all_iff)
  then show ?thesis
    by (simp add: test_lang emailLocalExp_def dot_def lang_repBetween_chars)
qed

section \<open>The email rule\<close>

lemma domain_example: "test domainExp ''example.com''"
proof -
  let ?tail = "Seq (Many (Chr (OneOf (alnum @ [hyphen])))) (Chr (OneOf alnum))"
  let ?label = "Seq (Chr (OneOf alnum)) (opt ?tail)"
  have labels: "[] \<in> lang domainLabels"
    by (simp add: domainLabels_def iter.iter_nil)
  have e: "''e'' \<in> lang (Chr (OneOf alnum))"
    by (rule one_char) code_simp
  have xampl: "''xampl'' \<in> lang (Many (Chr (OneOf (alnum @ [hyphen]))))"
    by (rule many_chars) code_simp
  have "''xampl'' @ ''e'' \<in> lang ?tail"
    unfolding lang.simps(5) using xampl e by (rule catI)
  then have "''xample'' \<in> lang (opt ?tail)"
    by (simp only: lang_opt insert_iff append.simps) simp
  with e have "''e'' @ ''xample'' \<in> lang ?label"
    unfolding lang.simps(5) by (rule catI)
  then have "(''e'' @ ''xample'') @ [] \<in> cat (lang ?label) (iter (lang ?label))"
    using iter.iter_nil by (rule catI)
  then have name: "''example'' \<in> lang domainName"
    unfolding domainName_def many1_def lang.simps(5,6) by (simp only: append.simps append_Nil2)
  have d: "''.'' \<in> lang dot"
    unfolding dot_def by (rule one_char) code_simp
  have "''com'' \<in> set topLevelDomains"
    by code_simp
  then have tld: "''com'' \<in> lang (alts (map lit topLevelDomains))"
    by (simp only: lang_alts langs_map_lit)
  have "''.'' @ ''com'' \<in> lang (Seq dot (alts (map lit topLevelDomains)))"
    unfolding lang.simps(5) using d tld by (rule catI)
  with name have "''example'' @ ''.'' @ ''com'' \<in>
      lang (Seq domainName (Seq dot (alts (map lit topLevelDomains))))"
    unfolding lang.simps(5) by (rule catI)
  with labels have "[] @ ''example'' @ ''.'' @ ''com'' \<in> lang domainExp"
    unfolding domainExp_def lang.simps(5) by (rule catI)
  then have "''example.com'' \<in> lang domainExp"
    by (simp only: append.simps)
  then show ?thesis by (simp only: test_lang)
qed

lemma domain_empty: "\<not> test domainExp []"
proof -
  have "\<not> nullable domainName"
    by (simp add: domainName_def many1_def)
  then show ?thesis
    by (simp add: test_def domainExp_def)
qed

lemma isValidEmail_no_at: "CHR ''@'' \<notin> set v \<Longrightarrow> isValidEmail V v = Inr False"
  using indexOf_char [of v "CHR ''@''"] by (simp add: isValidEmail_def)

lemma isValidEmail_split:
  assumes "CHR ''@'' \<notin> set host"
    and "validationExp V ''domain'' = Some d" and "validationExp V ''email-local'' = Some l"
  shows "isValidEmail V (loc @ ''@'' @ host) = Inr (test d host \<and> test l loc)"
proof -
  have "indexOf (loc @ ''@'' @ host) ''@'' \<noteq> - 1"
    using indexOf_char [of "loc @ ''@'' @ host" "CHR ''@''"] by simp
  moreover have "lastIndexOf (loc @ ''@'' @ host) ''@'' = int (length loc)"
    using assms(1) lastIndexOf_last [of "CHR ''@''" host loc] by simp
  moreover have "substringFrom (loc @ ''@'' @ host) (int (length loc) + 1) = host"
    using substringFrom_suffix [of "loc @ ''@''" host] by (simp add: add.commute)
  moreover have "substring (loc @ ''@'' @ host) 0 (int (length loc)) = loc"
    by simp
  ultimately show ?thesis
    using assms(2,3) by (simp add: isValidEmail_def isValidRegExp_def del: substring_prefix)
qed

lemma last_split_unique:
  fixes loc loc' host host' :: string
  assumes "loc @ c # host = loc' @ c # host'" and "c \<notin> set host" and "c \<notin> set host'"
  shows "loc = loc' \<and> host = host'"
proof -
  have "int (length loc) = int (length loc')"
    using lastIndexOf_last [OF assms(2), of loc] lastIndexOf_last [OF assms(3), of loc'] assms(1)
    by simp
  with assms(1) show ?thesis by simp
qed



section \<open>The rule chain\<close>

lemma substring_from_zero: "substring s 0 (int n) = take n s"
  by (simp add: substring_def clampIndex_def min_def)

lemma ruleToken_guard:
  "substring tok 0 (int (length (prefix V))) = prefix V \<longleftrightarrow> ruleToken V tok"
  by (simp add: substring_from_zero ruleToken_def)

lemma valueAfter_Cons: "valueAfter V F (t # ts) v = valueAfter V F ts (ruleValue V F t v)"
  by (simp add: valueAfter_def)

lemma valueAfter_Nil: "valueAfter V F [] v = v"
  by (simp add: valueAfter_def)

lemma allRulesPass_Nil: "allRulesPass V F [] v"
  by (simp add: allRulesPass_def)

lemma allRulesPass_Cons:
  "allRulesPass V F (t # ts) v \<longleftrightarrow>
     (ruleToken V t \<longrightarrow> ruleVerdict V F t v = Inr True) \<and>
     allRulesPass V F ts (ruleValue V F t v)"
proof -
  have u: "[0..<length (t # ts)] = 0 # map Suc [0..<length ts]"
    by (simp add: upt_conv_Cons map_Suc_upt del: upt_Suc)
  show ?thesis
    unfolding allRulesPass_def u
    by (simp add: list.pred_map comp_def valueAfter_Cons valueAfter_Nil)
qed

lemma validateLoop_rule:
  assumes "t \<noteq> []" and "ruleToken V t"
  shows "validateLoop V F (t # ts) v =
     (case ruleVerdict V F t v of
        Inl e \<Rightarrow> Inl e
      | Inr ok \<Rightarrow> if ok then validateLoop V F ts (ruleValue V F t v) else Inr False)"
  using assms
  by (cases "switchMethod V F (splitClassName V t) v")
     (auto simp: ruleToken_guard ruleVerdict_def ruleValue_def split: sum.splits)

lemma validateLoop_other:
  assumes "t \<noteq> []" and "\<not> ruleToken V t"
  shows "validateLoop V F (t # ts) v = validateLoop V F ts v"
  using assms by (simp add: ruleToken_guard)

lemma validateLoop_all:
  "[] \<notin> set toks \<Longrightarrow> validateLoop V F toks v = Inr True \<longleftrightarrow> allRulesPass V F toks v"
proof (induction toks arbitrary: v)
  case Nil
  then show ?case by (simp add: allRulesPass_Nil)
next
  case (Cons t ts)
  then have t: "t \<noteq> []" and ts: "[] \<notin> set ts" by auto
  show ?case
  proof (cases "ruleToken V t")
    case False
    then show ?thesis
      using Cons.IH [OF ts, of v] t
      by (simp add: validateLoop_other allRulesPass_Cons ruleValue_def del: validateLoop.simps)
  next
    case True
    show ?thesis
    proof (cases "ruleVerdict V F t v")
      case (Inl e)
      with True t show ?thesis
        by (simp add: validateLoop_rule allRulesPass_Cons del: validateLoop.simps)
    next
      case (Inr ok)
      with True t Cons.IH [OF ts, of "ruleValue V F t v"] show ?thesis
        by (simp add: validateLoop_rule allRulesPass_Cons del: validateLoop.simps)
    qed
  qed
qed

lemma validateLoop_first_failure:
  assumes "[] \<notin> set pre" and "tok \<noteq> []" and "allRulesPass V F pre v"
    and "ruleToken V tok" and "ruleVerdict V F tok (valueAfter V F pre v) = Inr False"
  shows "validateLoop V F (pre @ tok # post) v = Inr False"
  using assms
proof (induction pre arbitrary: v)
  case Nil
  then show ?case
    by (simp add: validateLoop_rule valueAfter_Nil del: validateLoop.simps)
next
  case (Cons t ts)
  then have t: "t \<noteq> []" and ts: "[] \<notin> set ts" by auto
  from Cons.prems(3) have head: "ruleToken V t \<longrightarrow> ruleVerdict V F t v = Inr True"
    and rest: "allRulesPass V F ts (ruleValue V F t v)"
    by (simp_all add: allRulesPass_Cons)
  from Cons.prems(5) have "ruleVerdict V F tok (valueAfter V F ts (ruleValue V F t v)) = Inr False"
    by (simp add: valueAfter_Cons)
  from Cons.IH [OF ts Cons.prems(2) rest Cons.prems(4) this]
  have IH: "validateLoop V F (ts @ tok # post) (ruleValue V F t v) = Inr False" .
  show ?case
  proof (cases "ruleToken V t")
    case True
    with head t IH show ?thesis
      by (simp add: validateLoop_rule del: validateLoop.simps)
  next
    case False
    with t IH show ?thesis
      by (simp add: validateLoop_other ruleValue_def del: validateLoop.simps)
  qed
qed

lemma split_example:
  "jsSplit CHR '' '' ''big v-required v-num v-bogus'' = [''big'', ''v-required''] @ ''v-num'' # [''v-bogus'']"
  "jsSplit CHR '' '' ''big v-required v-num'' = [''big'', ''v-required'', ''v-num'']"
  by code_simp+

text \<open>
  C2 (as amended). The class string is cut at every space character (code 32; no other
  white space separates). For a class string without an empty piece (no leading, trailing
  or doubled space): a piece is a rule token exactly when it begins with the prefix, the
  other pieces are ignored, and the result is true exactly when every rule token passes,
  each on the value as the tokens before it have left it. The evaluation stops with false
  at the first rule token that fails, whatever follows it.
\<close>

theorem validateHandler_rule_chain:
  "([] \<notin> set (jsSplit CHR '' '' cls) \<longrightarrow>
      (validateHandler V F cls v = Inr True \<longleftrightarrow> allRulesPass V F (jsSplit CHR '' '' cls) v)) \<and>
   (jsSplit CHR '' '' cls = pre @ tok # post \<and> [] \<notin> set pre \<and> tok \<noteq> [] \<and>
    allRulesPass V F pre v \<and> ruleToken V tok \<and>
    ruleVerdict V F tok (valueAfter V F pre v) = Inr False \<longrightarrow>
      validateHandler V F cls v = Inr False)"
  by (simp add: validateHandler_def validateLoop_all validateLoop_first_failure
      del: validateLoop.simps)

theorem validateHandler_rule_chain_witness:
  "validateHandler Validation Map.empty ''big v-required v-num'' ''2024'' = Inr True \<and>
   validateHandler Validation Map.empty ''big v-required v-num v-bogus'' ''20x4'' = Inr False"
proof -
  have a: "[] \<notin> set (jsSplit CHR '' '' ''big v-required v-num'')"
    by (simp add: split_example)
  have b: "allRulesPass Validation Map.empty (jsSplit CHR '' '' ''big v-required v-num'') ''2024''"
    by code_simp
  have c: "[] \<notin> set [''big'', ''v-required'']" "''v-num'' \<noteq> []"
    by simp_all
  have d: "allRulesPass Validation Map.empty [''big'', ''v-required''] ''20x4''"
    by code_simp
  have e: "ruleToken Validation ''v-num''"
    by code_simp
  have f: "ruleVerdict Validation Map.empty ''v-num''
             (valueAfter Validation Map.empty [''big'', ''v-required''] ''20x4'') = Inr False"
    by code_simp
  note validateHandler_rule_chain [of "''big v-required v-num''" Validation Map.empty "''2024''",
      THEN conjunct1, THEN mp, OF a]
  then have "validateHandler Validation Map.empty ''big v-required v-num'' ''2024'' = Inr True"
    using b by (rule iffD2)
  moreover have "jsSplit CHR '' '' ''big v-required v-num v-bogus'' =
        [''big'', ''v-required''] @ ''v-num'' # [''v-bogus''] \<and>
      [] \<notin> set [''big'', ''v-required''] \<and> ''v-num'' \<noteq> [] \<and>
      allRulesPass Validation Map.empty [''big'', ''v-required''] ''20x4'' \<and>
      ruleToken Validation ''v-num'' \<and>
      ruleVerdict Validation Map.empty ''v-num''
        (valueAfter Validation Map.empty [''big'', ''v-required''] ''20x4'') = Inr False"
    by (intro conjI split_example(1) c d e f)
  then have "validateHandler Validation Map.empty ''big v-required v-num v-bogus'' ''20x4'' = Inr False"
    using validateHandler_rule_chain [of "''big v-required v-num v-bogus''" Validation Map.empty
        "''20x4''" "[''big'', ''v-required'']" "''v-num''" "[''v-bogus'']", THEN conjunct2]
    by (rule rev_mp)
  ultimately show ?thesis by (rule conjI)
qed

text \<open>The claim as stated fails on white space other than the space: a tab does not
  separate, so \<open>x<tab>v-required\<close> is one class name that does not begin with the prefix,
  and the empty value passes although the rule token \<open>v-required\<close> fails on it.\<close>

theorem validateHandler_tab_not_separator:
  "validateHandler Validation Map.empty (''x'' @ [CHR 0x09] @ ''v-required'') [] = Inr True \<and>
   ruleToken Validation ''v-required'' \<and>
   ruleVerdict Validation Map.empty ''v-required'' [] = Inr False"
  by code_simp

text \<open>The loop of the handler ends at an empty class name, so the class names after a
  leading or doubled space are not evaluated.\<close>

lemma validateHandler_stops_at_empty:
  "validateHandler Validation Map.empty '' v-required'' [] = Inr True"
  "validateHandler Validation Map.empty ''v-error  v-num'' ''abc'' = Inr True"
  by code_simp+

section \<open>The loop of isValid\<close>

lemma display_length [simp]: "length (display V N k b) = length N"
  by (simp add: display_def)

lemma display_nth_markup:
  "nodeId (display V N k b ! j) = nodeId (N ! j) \<and>
   nodeClass (display V N k b ! j) = nodeClass (N ! j) \<and>
   nodeTag (display V N k b ! j) = nodeTag (N ! j)"
proof (cases "k < length N")
  case True
  then show ?thesis
    by (cases "j = k") (simp_all add: display_def)
next
  case False
  then have "length N \<le> k" by simp
  then show ?thesis by (simp add: display_def list_update_beyond)
qed

lemma fieldOf_display [simp]: "fieldOf V (display V N k b) j = fieldOf V N j"
  by (simp add: fieldOf_def display_nth_markup)

lemma isValidLoop_skip:
  assumes "fieldOf V N i = [] \<or> fieldOf V N i = lastFailedField vars"
  shows "isValidLoop V F (i # msgs) vars N = isValidLoop V F msgs vars N"
  using assms by (auto simp: fieldOf_def Let_def)

lemma isValidLoop_pass:
  assumes "fieldOf V N i \<noteq> []" and "fieldOf V N i \<noteq> lastFailedField vars"
    and "check V F (fieldOf V N i) (nodeClass (N ! i)) = Inr True"
  shows "isValidLoop V F (i # msgs) vars N =
     isValidLoop V F msgs (vars\<lparr> evaluated := evaluated vars @ [i] \<rparr>) (display V N i False)"
  using assms by (simp add: fieldOf_def Let_def)

lemma isValidLoop_fail:
  assumes "fieldOf V N i \<noteq> []" and "fieldOf V N i \<noteq> lastFailedField vars"
    and "check V F (fieldOf V N i) (nodeClass (N ! i)) = Inr False"
  shows "isValidLoop V F (i # msgs) vars N =
     isValidLoop V F msgs
       (vars\<lparr> firstErrorId := (if valid vars then nodeId (N ! i) else firstErrorId vars),
               valid := False,
               lastFailedField := fieldOf V N i,
               evaluated := evaluated vars @ [i] \<rparr>)
       (display V N i True)"
  using assms by (simp add: fieldOf_def Let_def)

lemma isValidLoop_skip_run:
  assumes "\<forall>j\<in>set run. fieldOf V N j = lastFailedField vars"
  shows "isValidLoop V F (run @ msgs) vars N = isValidLoop V F msgs vars N"
  using assms
proof (induction run)
  case Nil
  then show ?case by simp
next
  case (Cons j run)
  then have "isValidLoop V F (j # run @ msgs) vars N = isValidLoop V F (run @ msgs) vars N"
    by (intro isValidLoop_skip) simp
  with Cons show ?case by simp
qed

text \<open>
  C1 (as amended). In the loop of \<open>isValid\<close> an error element is skipped (\<open>check\<close> is not
  called for it and its display is left alone) whenever its field name is empty or
  equals the field name of the last element whose check failed. An element whose check
  passes is recorded as evaluated and hidden, and the last failed field stays as it was.
  After an element whose check fails, the elements that follow it directly and have the
  same field name are all skipped: in a run of elements with one field name the elements
  are evaluated one after the other up to the first failure, so at most one evaluation
  fails per run.
\<close>

theorem isValidLoop_skips_last_failed:
  "(fieldOf V N i = [] \<or> fieldOf V N i = lastFailedField vars \<longrightarrow>
      isValidLoop V F (i # msgs) vars N = isValidLoop V F msgs vars N) \<and>
   (fieldOf V N i \<noteq> [] \<and> fieldOf V N i \<noteq> lastFailedField vars \<and>
    check V F (fieldOf V N i) (nodeClass (N ! i)) = Inr True \<longrightarrow>
      isValidLoop V F (i # msgs) vars N =
        isValidLoop V F msgs (vars\<lparr> evaluated := evaluated vars @ [i] \<rparr>) (display V N i False)) \<and>
   (fieldOf V N i \<noteq> [] \<and> fieldOf V N i \<noteq> lastFailedField vars \<and>
    check V F (fieldOf V N i) (nodeClass (N ! i)) = Inr False \<and>
    (\<forall>j\<in>set run. fieldOf V N j = fieldOf V N i) \<longrightarrow>
      isValidLoop V F (i # run @ msgs) vars N =
        isValidLoop V F msgs
          (vars\<lparr> firstErrorId := (if valid vars then nodeId (N ! i) else firstErrorId vars),
                  valid := False,
                  lastFailedField := fieldOf V N i,
                  evaluated := evaluated vars @ [i] \<rparr>)
          (display V N i True))"
proof (intro conjI impI)
  assume "fieldOf V N i = [] \<or> fieldOf V N i = lastFailedField vars"
  then show "isValidLoop V F (i # msgs) vars N = isValidLoop V F msgs vars N"
    by (rule isValidLoop_skip)
next
  assume "fieldOf V N i \<noteq> [] \<and> fieldOf V N i \<noteq> lastFailedField vars \<and>
    check V F (fieldOf V N i) (nodeClass (N ! i)) = Inr True"
  then show "isValidLoop V F (i # msgs) vars N =
        isValidLoop V F msgs (vars\<lparr> evaluated := evaluated vars @ [i] \<rparr>) (display V N i False)"
    by (intro isValidLoop_pass) simp_all
next
  let ?vars = "vars\<lparr> firstErrorId := (if valid vars then nodeId (N ! i) else firstErrorId vars),
                  valid := False,
                  lastFailedField := fieldOf V N i,
                  evaluated := evaluated vars @ [i] \<rparr>"
  assume a: "fieldOf V N i \<noteq> [] \<and> fieldOf V N i \<noteq> lastFailedField vars \<and>
    check V F (fieldOf V N i) (nodeClass (N ! i)) = Inr False \<and>
    (\<forall>j\<in>set run. fieldOf V N j = fieldOf V N i)"
  then have "isValidLoop V F (i # run @ msgs) vars N =
      isValidLoop V F (run @ msgs) ?vars (display V N i True)"
    by (intro isValidLoop_fail) simp_all
  also have "\<dots> = isValidLoop V F msgs ?vars (display V N i True)"
    using a by (intro isValidLoop_skip_run) simp
  finally show "isValidLoop V F (i # run @ msgs) vars N =
      isValidLoop V F msgs ?vars (display V N i True)" .
qed

theorem isValidLoop_skips_last_failed_witness:
  "fieldOf Validation (nodes (serialPage [])) 0 = ''serial'' \<and>
   fieldOf Validation (nodes (serialPage [])) 1 = ''serial'' \<and>
   check Validation (elements (serialPage [])) ''serial'' ''v-error v-m'' = Inr False \<and>
   evaluated (fst (snd (isValidLoop Validation (elements (serialPage [])) (0 # [1] @ []) initVars
       (nodes (serialPage []))))) = [0]"
proof -
  have f0: "fieldOf Validation (nodes (serialPage [])) 0 = ''serial''"
    and f1: "fieldOf Validation (nodes (serialPage [])) 1 = ''serial''"
    and l: "lastFailedField initVars = []"
    and c: "check Validation (elements (serialPage [])) ''serial'' ''v-error v-m'' = Inr False"
    and n: "nodeClass (nodes (serialPage []) ! 0) = ''v-error v-m''"
    by code_simp+
  have "isValidLoop Validation (elements (serialPage [])) (0 # [1] @ []) initVars
          (nodes (serialPage [])) =
        isValidLoop Validation (elements (serialPage [])) []
          (initVars\<lparr> firstErrorId := (if valid initVars then nodeId (nodes (serialPage []) ! 0)
                                         else firstErrorId initVars),
                      valid := False,
                      lastFailedField := fieldOf Validation (nodes (serialPage [])) 0,
                      evaluated := evaluated initVars @ [0] \<rparr>)
          (display Validation (nodes (serialPage [])) 0 True)"
    using isValidLoop_skips_last_failed [of Validation "nodes (serialPage [])" 0 initVars
        "elements (serialPage [])" "[]" "[1]"] f0 f1 l c n
    by simp
  then have "evaluated (fst (snd (isValidLoop Validation (elements (serialPage [])) (0 # [1] @ [])
       initVars (nodes (serialPage []))))) = [0]"
    by (simp add: initVars_def)
  with f0 f1 c show ?thesis by simp
qed

text \<open>The claim as stated fails after a check that passes: the two messages of the
  field \<open>serial\<close> follow each other, the first passes, and the second is evaluated as
  well.\<close>

theorem same_field_evaluated_again:
  "fieldOf Validation (nodes (serialPage ''ABC123'')) 0 = ''serial'' \<and>
   fieldOf Validation (nodes (serialPage ''ABC123'')) 1 = ''serial'' \<and>
   evaluated (fst (snd (runLoop Validation (serialPage ''ABC123'')))) = [0, 1] \<and>
   fst (isValid Validation (serialPage ''ABC123'')) = Inr True"
  by code_simp

section \<open>Calling isValid twice\<close>

lemma markup_length: "markup N = markup N' \<Longrightarrow> length N = length N'"
proof -
  assume "markup N = markup N'"
  then have "length (markup N) = length (markup N')" by (rule arg_cong)
  then show ?thesis by (simp add: markup_def)
qed

lemma markup_at: "j < length N \<Longrightarrow> markup N ! j = (N ! j)\<lparr> nodeDisplay := [] \<rparr>"
  by (simp add: markup_def)

lemma markup_nth:
  assumes "markup N = markup N'" and "j < length N"
  shows "(N ! j)\<lparr> nodeDisplay := d \<rparr> = (N' ! j)\<lparr> nodeDisplay := d \<rparr>"
proof -
  have j': "j < length N'"
    using markup_length [OF assms(1)] assms(2) by simp
  have "markup N ! j = markup N' ! j"
    using assms(1) by (rule arg_cong)
  then have "(N ! j)\<lparr> nodeDisplay := [] \<rparr> = (N' ! j)\<lparr> nodeDisplay := [] \<rparr>"
    by (simp only: markup_at [OF assms(2)] markup_at [OF j'])
  then have "((N ! j)\<lparr> nodeDisplay := [] \<rparr>)\<lparr> nodeDisplay := d \<rparr> =
             ((N' ! j)\<lparr> nodeDisplay := [] \<rparr>)\<lparr> nodeDisplay := d \<rparr>"
    by (rule arg_cong)
  then show ?thesis by simp
qed

lemma markup_fields:
  assumes "markup N = markup N'" and "j < length N"
  shows "nodeTag (N ! j) = nodeTag (N' ! j)" and "nodeClass (N ! j) = nodeClass (N' ! j)"
proof -
  from markup_nth [OF assms, of "[]"]
  have e: "(N ! j)\<lparr> nodeDisplay := [] \<rparr> = (N' ! j)\<lparr> nodeDisplay := [] \<rparr>" .
  from arg_cong [OF e, of nodeTag] show "nodeTag (N ! j) = nodeTag (N' ! j)" by simp
  from arg_cong [OF e, of nodeClass] show "nodeClass (N ! j) = nodeClass (N' ! j)" by simp
qed

lemma display_nth_same:
  "k < length N \<Longrightarrow>
     display V N k b ! k = (N ! k)\<lparr> nodeDisplay := (if b then errorDisplay V else ''none'') \<rparr>"
  by (simp add: display_def)

lemma display_nth_other: "j \<noteq> k \<Longrightarrow> display V N k b ! j = N ! j"
  by (simp add: display_def)

lemma markup_display [simp]: "markup (display V N k b) = markup N"
proof (rule nth_equalityI)
  show "length (markup (display V N k b)) = length (markup N)"
    by (simp add: markup_def)
next
  fix j
  assume "j < length (markup (display V N k b))"
  then have j: "j < length N" by (simp add: markup_def)
  show "markup (display V N k b) ! j = markup N ! j"
  proof (cases "j = k")
    case True
    with j show ?thesis by (simp add: markup_def display_nth_same)
  next
    case False
    with j show ?thesis by (simp add: markup_def display_nth_other)
  qed
qed

lemma getElementsByClass_markup:
  assumes "markup N = markup N'"
  shows "getElementsByClass c1 c2 N t = getElementsByClass c1 c2 N' t"
proof -
  have len: "length N = length N'"
    using assms by (rule markup_length)
  have tag: "\<And>u. filter (\<lambda>i. tagMatches u (N ! i)) [0..<length N] =
                  filter (\<lambda>i. tagMatches u (N' ! i)) [0..<length N]"
    using markup_fields(1) [OF assms] by (intro filter_cong) (simp_all add: tagMatches_def)
  have cls: "\<And>xs. set xs \<subseteq> {0..<length N} \<Longrightarrow>
      filter (\<lambda>i. test (classExpr c1 c2) (nodeClass (N ! i))) xs =
      filter (\<lambda>i. test (classExpr c1 c2) (nodeClass (N' ! i))) xs"
    using markup_fields(2) [OF assms] by (intro filter_cong) auto
  show ?thesis
    unfolding getElementsByClass_def Let_def len [symmetric] tag
    by (rule cls) auto
qed

lemma fold_display_length [simp]:
  "length (fold (\<lambda>i N'. display V N' i b) ms N) = length N"
  by (induction ms arbitrary: N) simp_all

lemma markup_fold_display [simp]:
  "markup (fold (\<lambda>i N'. display V N' i b) ms N) = markup N"
  by (induction ms arbitrary: N) simp_all

lemma fold_display_nth:
  "j < length N \<Longrightarrow>
     fold (\<lambda>i N'. display V N' i False) ms N ! j =
       (if j \<in> set ms then (N ! j)\<lparr> nodeDisplay := ''none'' \<rparr> else N ! j)"
proof (induction ms arbitrary: N)
  case Nil
  then show ?case by simp
next
  case (Cons m ms)
  have j: "j < length (display V N m False)"
    using Cons.prems by simp
  show ?case
  proof (cases "j = m")
    case True
    with Cons.prems Cons.IH [OF j] show ?thesis
      by (simp add: display_nth_same)
  next
    case False
    with Cons.prems Cons.IH [OF j] show ?thesis
      by (simp add: display_nth_other)
  qed
qed

lemma markup_hideAllErrors [simp]: "markup (hideAllErrors V N) = markup N"
  by (simp add: hideAllErrors_def)

lemma isValidLoop_error:
  assumes "fieldOf V N i \<noteq> []" and "fieldOf V N i \<noteq> lastFailedField vars"
    and "check V F (fieldOf V N i) (nodeClass (N ! i)) = Inl err"
  shows "isValidLoop V F (i # msgs) vars N =
     (Some err, vars\<lparr> evaluated := evaluated vars @ [i] \<rparr>, N)"
  using assms by (simp add: fieldOf_def Let_def)

lemma isValidLoop_frame:
  "isValidLoop V F ms vars N = (e, vars', N') \<Longrightarrow>
     markup N' = markup N \<and> (\<forall>j. j \<notin> set ms \<longrightarrow> N' ! j = N ! j)"
proof (induction ms arbitrary: vars N)
  case Nil
  then show ?case by simp
next
  case (Cons i ms)
  show ?case
  proof (cases "fieldOf V N i = [] \<or> fieldOf V N i = lastFailedField vars")
    case True
    with Cons.prems have "isValidLoop V F ms vars N = (e, vars', N')"
      by (simp add: isValidLoop_skip del: isValidLoop.simps)
    from Cons.IH [OF this] show ?thesis by simp
  next
    case False
    then have f: "fieldOf V N i \<noteq> []" "fieldOf V N i \<noteq> lastFailedField vars" by simp_all
    show ?thesis
    proof (cases "check V F (fieldOf V N i) (nodeClass (N ! i))")
      case (Inl err)
      from isValidLoop_error [where msgs = ms, OF f Inl] Cons.prems
      have "N' = N" by (simp del: isValidLoop.simps)
      then show ?thesis by simp
    next
      case (Inr ok)
      show ?thesis
      proof (cases ok)
        case True
        with Inr isValidLoop_pass [where msgs = ms and F = F, OF f] Cons.prems
        have "isValidLoop V F ms (vars\<lparr> evaluated := evaluated vars @ [i] \<rparr>)
                (display V N i False) = (e, vars', N')"
          by (simp del: isValidLoop.simps)
        from Cons.IH [OF this] show ?thesis
          by (auto simp: display_nth_other)
      next
        case False
        with Inr isValidLoop_fail [where msgs = ms and F = F, OF f] Cons.prems
        have "isValidLoop V F ms
                (vars\<lparr> firstErrorId := (if valid vars then nodeId (N ! i) else firstErrorId vars),
                        valid := False,
                        lastFailedField := fieldOf V N i,
                        evaluated := evaluated vars @ [i] \<rparr>)
                (display V N i True) = (e, vars', N')"
          by (simp del: isValidLoop.simps)
        from Cons.IH [OF this] show ?thesis
          by (auto simp: display_nth_other)
      qed
    qed
  qed
qed

lemma hide_after_loop:
  assumes "isValidLoop V F
             (getElementsByClass (errorClass V) (prefix V) (hideAllErrors V N0) (errorTag V))
             vars (hideAllErrors V N0) = (e, vars', N1)"
  shows "hideAllErrors V N1 = hideAllErrors V N0"
proof -
  let ?ms = "getElementsByClass (errorClass V) (prefix V) N0 (errorTag V)"
  let ?H = "hideAllErrors V N0"
  have ms: "getElementsByClass (errorClass V) (prefix V) ?H (errorTag V) = ?ms"
    by (rule getElementsByClass_markup) simp
  from isValidLoop_frame [OF assms] ms
  have m1: "markup N1 = markup N0" and out: "\<And>j. j \<notin> set ?ms \<Longrightarrow> N1 ! j = ?H ! j"
    by simp_all
  have ms1: "getElementsByClass (errorClass V) (prefix V) N1 (errorTag V) = ?ms"
    using m1 by (rule getElementsByClass_markup)
  have len: "length N1 = length N0"
    using m1 by (rule markup_length)
  have H: "?H = fold (\<lambda>i N'. display V N' i False) ?ms N0"
    by (simp add: hideAllErrors_def)
  have H1: "hideAllErrors V N1 = fold (\<lambda>i N'. display V N' i False) ?ms N1"
    by (simp add: hideAllErrors_def ms1)
  show ?thesis
  proof (rule nth_equalityI)
    show "length (hideAllErrors V N1) = length ?H"
      by (simp add: H H1 len)
  next
    fix j
    assume "j < length (hideAllErrors V N1)"
    then have j1: "j < length N1" and j0: "j < length N0"
      by (simp_all add: H1 len)
    show "hideAllErrors V N1 ! j = ?H ! j"
    proof (cases "j \<in> set ?ms")
      case True
      have "(N1 ! j)\<lparr> nodeDisplay := ''none'' \<rparr> = (N0 ! j)\<lparr> nodeDisplay := ''none'' \<rparr>"
        using m1 j1 by (rule markup_nth)
      with True show ?thesis
        by (simp add: H H1 fold_display_nth [OF j1] fold_display_nth [OF j0])
    next
      case False
      from out [OF False] have "N1 ! j = ?H ! j" .
      with False show ?thesis
        by (simp add: H H1 fold_display_nth [OF j1] fold_display_nth [OF j0])
    qed
  qed
qed

lemma runLoop_again:
  assumes "runLoop V P = (e, vars, N1)" and "nodes Q = N1" and "elements Q = elements P"
  shows "runLoop V Q = (e, vars, N1)"
proof -
  from assms(1) have loop: "isValidLoop V (elements P)
      (getElementsByClass (errorClass V) (prefix V) (hideAllErrors V (nodes P)) (errorTag V))
      initVars (hideAllErrors V (nodes P)) = (e, vars, N1)"
    by (simp add: runLoop_def Let_def)
  from hide_after_loop [OF loop] have "hideAllErrors V N1 = hideAllErrors V (nodes P)" .
  with loop assms(2,3) show ?thesis
    by (simp add: runLoop_def Let_def)
qed


lemma focus_cases:
  "focus field P = (Some TypeError, P) \<or> (\<exists>c. focus field P = (None, P\<lparr> focused := Some c \<rparr>))"
  by (auto simp: focus_def split: option.splits entry.splits)

lemma focus_again:
  assumes "focus field P = (r, Q)"
  shows "focus field Q = (r, Q)"
proof -
  from focus_cases [of field P] assms
  have "(r = Some TypeError \<and> Q = P) \<or> (\<exists>c. r = None \<and> Q = P\<lparr> focused := Some c \<rparr>)"
    by auto
  then show ?thesis
  proof
    assume "r = Some TypeError \<and> Q = P"
    with assms show ?thesis by simp
  next
    assume "\<exists>c. r = None \<and> Q = P\<lparr> focused := Some c \<rparr>"
    then obtain c where c: "r = None" "Q = P\<lparr> focused := Some c \<rparr>" by blast
    with assms show ?thesis
      by (auto simp: focus_def split: option.splits entry.splits)
  qed
qed

lemma focus_frame:
  assumes "focus field P = (r, Q)"
  shows "nodes Q = nodes P \<and> elements Q = elements P \<and> location Q = location P"
  using focus_cases [of field P] assms by auto

lemma isValid_invalid:
  assumes "runLoop V P = (None, vars, N)" and "\<not> valid vars"
  shows "isValid V P =
     (case focus (formGet (elements P) (getFieldName V (firstErrorId vars) None))
             (afterLoop V vars N P) of
        (Some e, P3) \<Rightarrow> (Inl e, P3)
      | (None, P3) \<Rightarrow> (Inr False, P3))"
  using assms by (cases "jump V") (simp_all add: isValid_def afterLoop_def Let_def)

lemma afterLoop_fixed:
  assumes "nodes Q = N" and "location Q = location (afterLoop V vars N P)"
  shows "afterLoop V vars N Q = Q"
proof (cases "jump V")
  case True
  with assms(2) have "location Q = (if length (anchor V) \<noteq> 0 then anchor V
                           else ''#'' @ firstErrorId vars)"
    by (simp add: afterLoop_def)
  with True assms(1) show ?thesis
    by (simp add: afterLoop_def)
next
  case False
  with assms(1) show ?thesis
    by (simp add: afterLoop_def)
qed

text \<open>
  C9. A second call of \<open>isValid\<close>, on the page as the first call has left it and with the
  same validator, answers what the first call answered (the same boolean, or the same
  error) and leaves the page as it found it: the same error elements are shown and
  hidden, the address and the focus are the same.
\<close>

theorem isValid_idempotent: "isValid V (snd (isValid V P)) = isValid V P"
proof -
  obtain e vars N1 where run: "runLoop V P = (e, vars, N1)"
    by (cases "runLoop V P") auto
  let ?P1 = "P\<lparr> nodes := N1 \<rparr>"
  have again: "\<And>Q. nodes Q = N1 \<Longrightarrow> elements Q = elements P \<Longrightarrow> runLoop V Q = (e, vars, N1)"
    using run by (rule runLoop_again)
  show ?thesis
  proof (cases e)
    case (Some err)
    with run have first: "isValid V P = (Inl err, ?P1)"
      by (simp add: isValid_def)
    have "runLoop V ?P1 = (e, vars, N1)"
      by (rule again) simp_all
    with Some have "isValid V ?P1 = (Inl err, ?P1)"
      by (simp add: isValid_def)
    with first show ?thesis by simp
  next
    case None
    show ?thesis
    proof (cases "valid vars")
      case True
      with None run have first: "isValid V P = (Inr True, ?P1)"
        by (simp add: isValid_def)
      have "runLoop V ?P1 = (e, vars, N1)"
        by (rule again) simp_all
      with None True have "isValid V ?P1 = (Inr True, ?P1)"
        by (simp add: isValid_def)
      with first show ?thesis by simp
    next
      case False
      let ?field = "formGet (elements P) (getFieldName V (firstErrorId vars) None)"
      obtain r Q where foc: "focus ?field (afterLoop V vars N1 P) = (r, Q)"
        by (cases "focus ?field (afterLoop V vars N1 P)") auto
      have run': "runLoop V P = (None, vars, N1)"
        using run None by simp
      have first: "isValid V P = (case r of Some e \<Rightarrow> Inl e | None \<Rightarrow> Inr False, Q)"
        unfolding isValid_invalid [OF run' False] foc by (cases r) simp_all
      from focus_frame [OF foc]
      have Q: "nodes Q = N1" "elements Q = elements P"
        "location Q = location (afterLoop V vars N1 P)"
        by (simp_all add: afterLoop_def)
      have runQ: "runLoop V Q = (None, vars, N1)"
        using again [OF Q(1,2)] None by simp
      have fixed: "afterLoop V vars N1 Q = Q"
        using Q(1,3) by (rule afterLoop_fixed)
      have focQ: "focus ?field Q = (r, Q)"
        using foc by (rule focus_again)
      have "isValid V Q = (case r of Some e \<Rightarrow> Inl e | None \<Rightarrow> Inr False, Q)"
        unfolding isValid_invalid [OF runQ False] Q(2) fixed focQ by (cases r) simp_all
      with first show ?thesis by simp
    qed
  qed
qed

theorem isValid_idempotent_witness:
  "fst (isValid Validation namePage) = Inr False \<and>
   map nodeDisplay (nodes (snd (isValid Validation namePage))) = [''inline'', ''block''] \<and>
   isValid Validation (snd (isValid Validation namePage)) = isValid Validation namePage"
proof -
  have "fst (isValid Validation namePage) = Inr False"
    and "map nodeDisplay (nodes (snd (isValid Validation namePage))) = [''inline'', ''block'']"
    by code_simp+
  then show ?thesis
    using isValid_idempotent [of Validation namePage] by simp
qed

end
